theory Spec2Isabelle
  imports Complex_Main "HOL-Library.Char_ord" "HOL-Library.List_Lexorder"
begin

section \<open>Python values and dictionaries\<close>

text \<open>
  The program (\<^verbatim>\<open>bigquery/make_web.py\<close>) works on the objects produced by a JSON
  reader: \<^verbatim>\<open>None\<close>, booleans, integers, floats, strings, lists and dictionaries, and it
  adds \<^verbatim>\<open>Decimal\<close> scores of its own. A Python dictionary keeps its keys in insertion
  order, assigning to an existing key keeps the key's place, and iteration follows that
  order; it is modelled as an association list with exactly this discipline. A finite
  float is represented by the real number it denotes.
\<close>

datatype val =
    VNull
  | VBool bool
  | VInt int
  | VFloat real
  | VDec real
  | VStr string
  | VList "val list"
  | VDict "(string \<times> val) list"

type_synonym pydict = "(string \<times> val) list"

text \<open>
  The exceptions the program can raise; none of them is caught anywhere in the file, so each
  aborts the run. \<open>Unmodelled\<close> marks the dynamically typed inputs on which Python's
  behaviour is outside this model (a domain that is not a string, a generator entry that is
  not a string, and the like): the model stops there and claims nothing.
\<close>

datatype error =
    KeyError string
  | AttributeError
  | TypeError
  | ValueError
  | OverflowError
  | DecimalOverflow
  | JSONDecodeError
  | Unmodelled

text \<open>\<^verbatim>\<open>d.get(k)\<close>: the value of the first (and, in a dictionary, only) entry for \<open>k\<close>.\<close>

fun dget :: "'k \<Rightarrow> ('k \<times> 'v) list \<Rightarrow> 'v option" where
  "dget k [] = None"
| "dget k ((k', v) # d) = (if k = k' then Some v else dget k d)"

text \<open>\<^verbatim>\<open>d[k] = v\<close>: an existing key keeps its position, a new key goes to the end.\<close>

fun dset :: "'k \<Rightarrow> 'v \<Rightarrow> ('k \<times> 'v) list \<Rightarrow> ('k \<times> 'v) list" where
  "dset k v [] = [(k, v)]"
| "dset k v ((k', v') # d) = (if k = k' then (k', v) # d else (k', v') # dset k v d)"

text \<open>\<^verbatim>\<open>d.pop(k, None)\<close>, as far as the dictionary is concerned: the key is gone.\<close>

definition dpop :: "'k \<Rightarrow> ('k \<times> 'v) list \<Rightarrow> ('k \<times> 'v) list" where
  "dpop k d = filter (\<lambda>(k', v). k' \<noteq> k) d"

text \<open>\<^verbatim>\<open>d.update(e)\<close>: the entries of \<open>e\<close> are assigned in \<open>e\<close>'s order.\<close>

fun dupdate :: "('k \<times> 'v) list \<Rightarrow> ('k \<times> 'v) list \<Rightarrow> ('k \<times> 'v) list" where
  "dupdate d [] = d"
| "dupdate d ((k, v) # e) = dupdate (dset k v d) e"

text \<open>
  \<^verbatim>\<open>d[k]\<close> on a \<^verbatim>\<open>defaultdict\<close> followed by a change of the value found: a missing key is
  first created with the factory's value \<open>z\<close> (at the end), then \<open>f\<close> is applied in place.
\<close>

fun dmodify :: "'k \<Rightarrow> 'v \<Rightarrow> ('v \<Rightarrow> 'v) \<Rightarrow> ('k \<times> 'v) list \<Rightarrow> ('k \<times> 'v) list" where
  "dmodify k z f [] = [(k, f z)]"
| "dmodify k z f ((k', v) # d) = (if k = k' then (k', f v) # d else (k', v) # dmodify k z f d)"

text \<open>Python's truth value of an object, as \<^verbatim>\<open>if x:\<close> and \<^verbatim>\<open>x or y\<close> test it.\<close>

fun truthy :: "val \<Rightarrow> bool" where
  "truthy VNull = False"
| "truthy (VBool b) = b"
| "truthy (VInt n) = (n \<noteq> 0)"
| "truthy (VFloat x) = (x \<noteq> 0)"
| "truthy (VDec x) = (x \<noteq> 0)"
| "truthy (VStr s) = (s \<noteq> [])"
| "truthy (VList l) = (l \<noteq> [])"
| "truthy (VDict d) = (d \<noteq> [])"

section \<open>Aggregation of link events: \<^verbatim>\<open>load_links\<close>\<close>

text \<open>
  \<^verbatim>\<open>links[from][to][direction][mf2]\<close> is a four-level \<^verbatim>\<open>defaultdict\<close>; the two directions
  are the fixed keys \<^verbatim>\<open>'out'\<close> and \<^verbatim>\<open>'in'\<close>.
\<close>

datatype direction = Out | In

type_synonym counts = "(string \<times> int) list"
type_synonym buckets = "(direction \<times> counts) list"
type_synonym graph = "(string \<times> (string \<times> buckets) list) list"

record link_state =
  links :: graph
  from_domains :: "string list"
  out_counts :: "(string \<times> int) list"
  in_counts :: "(string \<times> int) list"

text \<open>\<^verbatim>\<open>links[a][b][dir][mf2] += num\<close>, creating every missing level on the way.\<close>

definition bump_edge :: "string \<Rightarrow> string \<Rightarrow> direction \<Rightarrow> string \<Rightarrow> int \<Rightarrow> graph \<Rightarrow> graph" where
  "bump_edge a b dir mf2 num g =
     dmodify a [] (dmodify b [] (dmodify dir [] (dmodify mf2 0 (\<lambda>c. c + num)))) g"

text \<open>
  \<^verbatim>\<open>int(x)\<close> on a string. For a string of ASCII characters without an underscore and
  with at most 4300 digits the answer is the same in every Python 3: the whitespace
  characters space, \<^verbatim>\<open>\t\<close>, \<^verbatim>\<open>\n\<close>, \<^verbatim>\<open>\v\<close>, \<^verbatim>\<open>\f\<close> and \<^verbatim>\<open>\r\<close> are dropped on both sides,
  one sign is allowed, and what remains must be one or more decimal digits; anything else
  raises \<^verbatim>\<open>ValueError\<close>. The other strings are outside the model: \<^verbatim>\<open>int\<close> also accepts
  Unicode whitespace and Unicode decimal digits, it accepts underscores between digits from
  Python 3.6 on, and it refuses more than 4300 digits from Python 3.11 on.
\<close>

definition is_space :: "char \<Rightarrow> bool" where
  "is_space c = (c \<in> set [CHR '' '', CHR 0x09, CHR 0x0A, CHR 0x0B, CHR 0x0C, CHR 0x0D])"

definition is_digit :: "char \<Rightarrow> bool" where
  "is_digit c = (CHR ''0'' \<le> c \<and> c \<le> CHR ''9'')"

definition digit_val :: "char \<Rightarrow> int" where
  "digit_val c = int (of_char c) - 48"

definition strip :: "string \<Rightarrow> string" where
  "strip s = rev (dropWhile is_space (rev (dropWhile is_space s)))"

text \<open>Decimal digits, read left to right into \<open>acc\<close>.\<close>

fun digits_from :: "int \<Rightarrow> string \<Rightarrow> int option" where
  "digits_from acc [] = Some acc"
| "digits_from acc (c # s) =
     (if is_digit c then digits_from (acc * 10 + digit_val c) s else None)"

definition int_of_digits :: "string \<Rightarrow> int option" where
  "int_of_digits s = (if s = [] then None else digits_from 0 s)"

definition signed_digits :: "string \<Rightarrow> int option" where
  "signed_digits s =
     (case strip s of
        [] \<Rightarrow> None
      | c # r \<Rightarrow>
          if c = CHR ''-'' then map_option uminus (int_of_digits r)
          else if c = CHR ''+'' then int_of_digits r
          else int_of_digits (c # r))"

definition plain_ascii :: "string \<Rightarrow> bool" where
  "plain_ascii s =
     ((\<forall>c \<in> set s. (of_char c :: int) < 128) \<and> CHR ''_'' \<notin> set s \<and>
      int (length (filter is_digit s)) \<le> 4300)"

definition int_of_string :: "string \<Rightarrow> error + int" where
  "int_of_string s =
     (if plain_ascii s
      then (case signed_digits s of None \<Rightarrow> Inl ValueError | Some n \<Rightarrow> Inr n)
      else Inl Unmodelled)"

text \<open>\<^verbatim>\<open>int(x)\<close>: a float is truncated towards zero, \<^verbatim>\<open>int(None)\<close> and \<^verbatim>\<open>int([..])\<close> raise.\<close>

fun py_int :: "val \<Rightarrow> error + int" where
  "py_int (VInt n) = Inr n"
| "py_int (VBool b) = Inr (if b then 1 else 0)"
| "py_int (VFloat x) = Inr (if 0 \<le> x then \<lfloor>x\<rfloor> else \<lceil>x\<rceil>)"
| "py_int (VDec x) = Inr (if 0 \<le> x then \<lfloor>x\<rfloor> else \<lceil>x\<rceil>)"
| "py_int (VStr s) = int_of_string s"
| "py_int VNull = Inl TypeError"
| "py_int (VList l) = Inl TypeError"
| "py_int (VDict d) = Inl TypeError"

text \<open>\<^verbatim>\<open>d[k]\<close> where \<open>k\<close> must name a domain: a missing key raises \<^verbatim>\<open>KeyError\<close>.\<close>

definition domain_field :: "string \<Rightarrow> pydict \<Rightarrow> error + string" where
  "domain_field k d =
     (case dget k d of
        None \<Rightarrow> Inl (KeyError k)
      | Some (VStr s) \<Rightarrow> Inr s
      | Some _ \<Rightarrow> Inl Unmodelled)"

text \<open>
  \<^verbatim>\<open>mf2 = link.get('mf2_class', 'other')\<close>, then a leading \<^verbatim>\<open>u-\<close> is cut off;
  \<^verbatim>\<open>startswith\<close> exists on strings only.
\<close>

definition mf2_field :: "pydict \<Rightarrow> error + string" where
  "mf2_field d =
     (case dget ''mf2_class'' d of
        None \<Rightarrow> Inr ''other''
      | Some (VStr s) \<Rightarrow> Inr (if take 2 s = ''u-'' then drop 2 s else s)
      | Some _ \<Rightarrow> Inl AttributeError)"

text \<open>A link event, once its four fields have been read.\<close>

record event =
  ev_from :: string
  ev_to :: string
  ev_num :: int
  ev_mf2 :: string

definition read_link :: "pydict \<Rightarrow> error + event" where
  "read_link link =
     (case domain_field ''from_domain'' link of Inl e \<Rightarrow> Inl e | Inr f \<Rightarrow>
      case domain_field ''to_domain'' link of Inl e \<Rightarrow> Inl e | Inr t \<Rightarrow>
      case (case dget ''num'' link of None \<Rightarrow> Inl (KeyError ''num'') | Some v \<Rightarrow> py_int v) of
        Inl e \<Rightarrow> Inl e | Inr n \<Rightarrow>
      case mf2_field link of Inl e \<Rightarrow> Inl e | Inr m \<Rightarrow>
      Inr \<lparr>ev_from = f, ev_to = t, ev_num = n, ev_mf2 = m\<rparr>)"

text \<open>The four updates of the loop body, in the source's order.\<close>

definition add_event :: "event \<Rightarrow> link_state \<Rightarrow> link_state" where
  "add_event ev st =
     \<lparr>links = bump_edge (ev_to ev) (ev_from ev) In (ev_mf2 ev) (ev_num ev)
                (bump_edge (ev_from ev) (ev_to ev) Out (ev_mf2 ev) (ev_num ev) (links st)),
      from_domains = (if ev_from ev \<in> set (from_domains st) then from_domains st
                      else from_domains st @ [ev_from ev]),
      out_counts = dmodify (ev_from ev) 0 (\<lambda>c. c + ev_num ev) (out_counts st),
      in_counts = dmodify (ev_to ev) 0 (\<lambda>c. c + ev_num ev) (in_counts st)\<rparr>"

definition empty_state :: link_state where
  "empty_state = \<lparr>links = [], from_domains = [], out_counts = [], in_counts = []\<rparr>"

fun load_from :: "link_state \<Rightarrow> pydict list \<Rightarrow> error + link_state" where
  "load_from st [] = Inr st"
| "load_from st (link # rest) =
     (case read_link link of
        Inl e \<Rightarrow> Inl e
      | Inr ev \<Rightarrow> load_from (add_event ev st) rest)"

definition load_links :: "pydict list \<Rightarrow> error + link_state" where
  "load_links links_in = load_from empty_state links_in"

text \<open>
  Reading the aggregated structure: \<^verbatim>\<open>graph[a][b][dir][c]\<close> with the \<^verbatim>\<open>defaultdict\<close>
  value \<open>0\<close> for whatever is missing, a per-domain total as \<^verbatim>\<open>counts.get(d) or 0\<close>
  reads it, and the sum of all class counts of one direction over the edges of a domain.
\<close>

definition cnt :: "graph \<Rightarrow> string \<Rightarrow> string \<Rightarrow> direction \<Rightarrow> string \<Rightarrow> int" where
  "cnt g a b dir c =
     (case dget a g of None \<Rightarrow> 0 | Some es \<Rightarrow>
      case dget b es of None \<Rightarrow> 0 | Some bk \<Rightarrow>
      case dget dir bk of None \<Rightarrow> 0 | Some cs \<Rightarrow>
      case dget c cs of None \<Rightarrow> 0 | Some n \<Rightarrow> n)"

definition count_of :: "string \<Rightarrow> (string \<times> int) list \<Rightarrow> int" where
  "count_of d cs = (case dget d cs of None \<Rightarrow> 0 | Some n \<Rightarrow> n)"

definition bucket_total :: "direction \<Rightarrow> buckets \<Rightarrow> int" where
  "bucket_total dir bk = (case dget dir bk of None \<Rightarrow> 0 | Some cs \<Rightarrow> sum_list (map snd cs))"

definition domain_total :: "direction \<Rightarrow> graph \<Rightarrow> string \<Rightarrow> int" where
  "domain_total dir g d =
     (case dget d g of None \<Rightarrow> 0
      | Some es \<Rightarrow> sum_list (map (\<lambda>(x, bk). bucket_total dir bk) es))"

text \<open>A link record as the JSON reader delivers it, used for the concrete instances below.\<close>

definition link_rec :: "string \<Rightarrow> string \<Rightarrow> int \<Rightarrow> string \<Rightarrow> pydict" where
  "link_rec f t n m =
     [(''from_domain'', VStr f), (''to_domain'', VStr t), (''num'', VInt n),
      (''mf2_class'', VStr m)]"

section \<open>Scoring: the first part of \<^verbatim>\<open>make_full\<close>\<close>

definition MF2_WEIGHTS :: "(string \<times> int) list" where
  "MF2_WEIGHTS =
     [(''in-reply-to'', 5), (''invitee'', 5), (''quotation-of'', 3), (''repost-of'', 3),
      (''like-of'', 2), (''favorite-of'', 2), (''bookmark-of'', 2), (''other'', 1)]"

fun DIRECTION_WEIGHTS :: "direction \<Rightarrow> int" where
  "DIRECTION_WEIGHTS Out = 2"
| "DIRECTION_WEIGHTS In = 1"

definition MAX_BASE_LINKS :: nat where
  "MAX_BASE_LINKS = 500"

text \<open>
  \<^verbatim>\<open>decimal.getcontext().prec = 3\<close>: every \<^verbatim>\<open>Decimal\<close> operation rounds its exact result
  to three significant digits, ties to the even digit (the context's default rounding), and
  raises \<^verbatim>\<open>Overflow\<close> when the rounded result needs an exponent above the context's
  \<^verbatim>\<open>Emax = 999999\<close>. The raw scores are sums of integers, so they are integers throughout
  and are rounded here on \<open>int\<close>; \<open>ndigits\<close> counts decimal digits.
\<close>

fun ndigits :: "nat \<Rightarrow> nat" where
  "ndigits n = (if n < 10 then 1 else Suc (ndigits (n div 10)))"

declare ndigits.simps [simp del]

definition round3 :: "int \<Rightarrow> int" where
  "round3 n =
     (let a = nat \<bar>n\<bar>;
          p = 10 ^ (ndigits a - 3);
          q = a div p;
          r = a mod p;
          q' = (if p < 2 * r \<or> (2 * r = p \<and> odd q) then q + 1 else q)
      in sgn n * int (q' * p))"

text \<open>\<^verbatim>\<open>score += Decimal(n)\<close>: \<^verbatim>\<open>Decimal(n)\<close> itself is exact, the addition rounds.\<close>

definition dec_add :: "int \<Rightarrow> int \<Rightarrow> error + int" where
  "dec_add a b =
     (let r = round3 (a + b)
      in if 1000000 < int (ndigits (nat \<bar>r\<bar>)) then Inl DecimalOverflow else Inr r)"

text \<open>The two inner loops over one edge's \<^verbatim>\<open>stats.items()\<close> and each \<^verbatim>\<open>counts.items()\<close>.\<close>

fun score_counts :: "direction \<Rightarrow> int \<Rightarrow> counts \<Rightarrow> error + int" where
  "score_counts dir score [] = Inr score"
| "score_counts dir score ((mf2, count) # cs) =
     (case dget mf2 MF2_WEIGHTS of
        None \<Rightarrow> Inl (KeyError mf2)
      | Some w \<Rightarrow>
          (case dec_add score (count * w * DIRECTION_WEIGHTS dir) of
             Inl e \<Rightarrow> Inl e
           | Inr score' \<Rightarrow> score_counts dir score' cs))"

fun score_stats :: "int \<Rightarrow> buckets \<Rightarrow> error + int" where
  "score_stats score [] = Inr score"
| "score_stats score ((dir, cs) # bk) =
     (case score_counts dir score cs of
        Inl e \<Rightarrow> Inl e
      | Inr score' \<Rightarrow> score_stats score' bk)"

text \<open>
  The first loop over \<^verbatim>\<open>domains.values()\<close>: each edge gets its raw score, and
  \<^verbatim>\<open>max_score\<close>, which starts as the Python integer \<open>0\<close>, is replaced by every score that
  exceeds it.
\<close>

fun raw_scores :: "(string \<times> buckets) list \<Rightarrow> error + (string \<times> buckets \<times> int) list" where
  "raw_scores [] = Inr []"
| "raw_scores ((t, bk) # es) =
     (case score_stats 0 bk of
        Inl e \<Rightarrow> Inl e
      | Inr s \<Rightarrow>
          (case raw_scores es of
             Inl e \<Rightarrow> Inl e
           | Inr rs \<Rightarrow> Inr ((t, bk, s) # rs)))"

fun max_score_from :: "int \<Rightarrow> (string \<times> buckets \<times> int) list \<Rightarrow> int" where
  "max_score_from m [] = m"
| "max_score_from m ((t, bk, s) # rs) = max_score_from (if m < s then s else m) rs"

text \<open>
  \<^verbatim>\<open>Decimal.ln\<close> and \<^verbatim>\<open>Decimal.__truediv__\<close> return the correctly rounded result at the
  context's precision: the exact real value is rounded to three significant digits, ties to
  even.
\<close>

definition round_half_even :: "real \<Rightarrow> int" where
  "round_half_even x =
     (let f = \<lfloor>x\<rfloor>
      in if x - of_int f < 1 / 2 then f
         else if 1 / 2 < x - of_int f then f + 1
         else if even f then f else f + 1)"

definition quantize3 :: "real \<Rightarrow> real" where
  "quantize3 x =
     (if x = 0 then 0
      else let e = \<lfloor>log 10 \<bar>x\<bar>\<rfloor> - 2
           in of_int (round_half_even (x / 10 powr (of_int e))) * 10 powr (of_int e))"

definition dec_ln :: "int \<Rightarrow> real" where
  "dec_ln s = quantize3 (ln (of_int s))"

definition dec_div :: "real \<Rightarrow> real \<Rightarrow> real" where
  "dec_div a b = quantize3 (a / b)"

text \<open>
  The second loop: \<^verbatim>\<open>0 if score <= 1 else 1 if max_score_ln == 0 else score.ln() / max_score_ln\<close>.
  The first two results are Python integers, the third is a \<^verbatim>\<open>Decimal\<close>.
\<close>

definition normalize :: "real \<Rightarrow> int \<Rightarrow> val" where
  "normalize max_score_ln score =
     (if score \<le> 1 then VInt 0
      else if max_score_ln = 0 then VInt 1
      else VDec (dec_div (dec_ln score) max_score_ln))"

text \<open>An edge after scoring: the two count buckets and the \<^verbatim>\<open>'score'\<close> entry.\<close>

record stats =
  st_buckets :: buckets
  st_score :: val

type_synonym scored = "(string \<times> (string \<times> stats) list) list"

text \<open>
  One round of the outer loop. When no score exceeded \<open>0\<close>, \<^verbatim>\<open>max_score\<close> is still the
  integer it started as, and \<^verbatim>\<open>max_score.ln()\<close> raises \<^verbatim>\<open>AttributeError\<close>: an \<^verbatim>\<open>int\<close> has no
  such method.
\<close>

definition score_domain :: "(string \<times> buckets) list \<Rightarrow> error + (string \<times> stats) list" where
  "score_domain domains =
     (case raw_scores domains of
        Inl e \<Rightarrow> Inl e
      | Inr rs \<Rightarrow>
          (let max_score = max_score_from 0 rs
           in if max_score \<le> 0 then Inl AttributeError
              else Inr (map (\<lambda>(t, bk, s).
                          (t, \<lparr>st_buckets = bk, st_score = normalize (dec_ln max_score) s\<rparr>)) rs)))"

fun score_links :: "graph \<Rightarrow> error + scored" where
  "score_links [] = Inr []"
| "score_links ((d, domains) # g) =
     (case score_domain domains of
        Inl e \<Rightarrow> Inl e
      | Inr sd \<Rightarrow>
          (case score_links g of
             Inl e \<Rightarrow> Inl e
           | Inr sg \<Rightarrow> Inr ((d, sd) # sg)))"

text \<open>The numeric value of a score, for comparing integers with \<^verbatim>\<open>Decimal\<close>s.\<close>

fun num_val :: "val \<Rightarrow> real" where
  "num_val (VInt n) = of_int n"
| "num_val (VDec x) = x"
| "num_val (VFloat x) = x"
| "num_val (VBool b) = (if b then 1 else 0)"
| "num_val _ = 0"

section \<open>Assembling the site records: the second part of \<^verbatim>\<open>make_full\<close>\<close>

text \<open>
  Two things the function uses are not in the source file. \<^verbatim>\<open>TAGS\<close> is read from text
  files of the repository's \<^verbatim>\<open>crawl\<close> directory when the module is loaded, and
  \<^verbatim>\<open>json.loads\<close> belongs to the \<^verbatim>\<open>simplejson\<close> library. Both are parameters of the model:
  \<open>cfg_TAGS\<close> is the dictionary from tag to its list of domains,
  and \<open>cfg_loads\<close> gives, for a string, either the parsed value or the exception that the
  parser raises.
\<close>

record config =
  cfg_TAGS :: "(string \<times> string list) list"
  cfg_loads :: "string \<Rightarrow> error + val"

definition TAGS_NO_SUBDOMAINS :: "string list" where
  "TAGS_NO_SUBDOMAINS = [''micro.blog'', ''withknown.com'']"

definition SERVERS :: "(string \<times> string) list" where
  "SERVERS =
     [(''Known http://withknown.com'', ''Known''),
      (''Known https://withknown.com'', ''Known'')]"

definition SERVER_TAGS :: "string list" where
  "SERVER_TAGS = [''Known'', ''WordPress'']"

text \<open>Sequencing of steps that may raise.\<close>

definition and_then :: "error + 'a \<Rightarrow> ('a \<Rightarrow> error + 'b) \<Rightarrow> error + 'b" where
  "and_then x f = (case x of Inl e \<Rightarrow> Inl e | Inr a \<Rightarrow> f a)"

fun each :: "('a \<Rightarrow> error + 'b) \<Rightarrow> 'a list \<Rightarrow> error + 'b list" where
  "each f [] = Inr []"
| "each f (x # xs) =
     (case f x of
        Inl e \<Rightarrow> Inl e
      | Inr y \<Rightarrow> (case each f xs of Inl e \<Rightarrow> Inl e | Inr ys \<Rightarrow> Inr (y # ys)))"

fun thread :: "('a \<Rightarrow> 's \<Rightarrow> error + 's) \<Rightarrow> 'a list \<Rightarrow> 's \<Rightarrow> error + 's" where
  "thread f [] s = Inr s"
| "thread f (x # xs) s = (case f x s of Inl e \<Rightarrow> Inl e | Inr s' \<Rightarrow> thread f xs s')"

text \<open>
  \<^verbatim>\<open>all_extra[site['domain']].update(site)\<close> for every record of every extra sequence.
\<close>

definition add_extra :: "pydict \<Rightarrow> (string \<times> pydict) list \<Rightarrow> error + (string \<times> pydict) list" where
  "add_extra site all_extra =
     (case domain_field ''domain'' site of
        Inl e \<Rightarrow> Inl e
      | Inr d \<Rightarrow> Inr (dmodify d [] (\<lambda>e. dupdate e site) all_extra))"

definition collect_extra :: "pydict list list \<Rightarrow> error + (string \<times> pydict) list" where
  "collect_extra extras = thread add_extra (concat extras) []"

text \<open>
  \<^verbatim>\<open>more_sites\<close>: a stub record for every source domain of the links that no site record
  names, in sorted order.
\<close>

definition more_sites :: "string list \<Rightarrow> string list \<Rightarrow> pydict list" where
  "more_sites from_doms site_doms =
     map (\<lambda>d. [(''domain'', VStr d)])
         (sort (remdups (filter (\<lambda>d. d \<notin> set site_doms) from_doms)))"

text \<open>\<^verbatim>\<open>num_pages = site.get('num_pages')\<close>; \<^verbatim>\<open>if num_pages: site['num_pages'] = int(num_pages)\<close>.\<close>

definition coerce_num_pages :: "pydict \<Rightarrow> error + pydict" where
  "coerce_num_pages site =
     (case dget ''num_pages'' site of
        None \<Rightarrow> Inr site
      | Some v \<Rightarrow>
          if truthy v
          then (case py_int v of Inl e \<Rightarrow> Inl e | Inr n \<Rightarrow> Inr (dset ''num_pages'' (VInt n) site))
          else Inr site)"

text \<open>
  \<^verbatim>\<open>tags = site.setdefault('tags', [])\<close> binds \<^verbatim>\<open>tags\<close> to the object stored under
  \<^verbatim>\<open>'tags'\<close>, and no later statement assigns to that key, so \<^verbatim>\<open>tags.append(t)\<close> changes the
  value stored there; only a list has \<^verbatim>\<open>append\<close>.
\<close>

definition setdefault :: "string \<Rightarrow> val \<Rightarrow> pydict \<Rightarrow> pydict" where
  "setdefault k v site = (case dget k site of None \<Rightarrow> dset k v site | Some _ \<Rightarrow> site)"

definition tags_append :: "string \<Rightarrow> pydict \<Rightarrow> error + pydict" where
  "tags_append t site =
     (case dget ''tags'' site of
        Some (VList l) \<Rightarrow> Inr (dset ''tags'' (VList (l @ [VStr t])) site)
      | _ \<Rightarrow> Inl AttributeError)"

definition endswith :: "string \<Rightarrow> string \<Rightarrow> bool" where
  "endswith s suffix = (length suffix \<le> length s \<and> drop (length s - length suffix) s = suffix)"

definition tag_matches :: "string \<Rightarrow> string \<Rightarrow> bool" where
  "tag_matches domain tag_domain =
     (domain = tag_domain \<or>
      (endswith domain (''.'' @ tag_domain) \<and> tag_domain \<notin> set TAGS_NO_SUBDOMAINS))"

definition tag_step :: "string \<Rightarrow> string \<times> string list \<Rightarrow> pydict \<Rightarrow> error + pydict" where
  "tag_step domain entry site =
     (if \<exists>tag_domain \<in> set (snd entry). tag_matches domain tag_domain
      then tags_append (fst entry) site else Inr site)"

definition endpoint_tag :: "string \<Rightarrow> string \<Rightarrow> pydict \<Rightarrow> error + pydict" where
  "endpoint_tag field tag site =
     (case dget field site of
        None \<Rightarrow> Inr site
      | Some v \<Rightarrow> if truthy v then tags_append tag site else Inr site)"

definition infer_tags :: "config \<Rightarrow> string \<Rightarrow> pydict \<Rightarrow> error + pydict" where
  "infer_tags cfg domain site =
     and_then (thread (tag_step domain) (cfg_TAGS cfg) (setdefault ''tags'' (VList []) site))
       (\<lambda>site. and_then (endpoint_tag ''webmention_endpoints'' ''webmention'' site)
          (endpoint_tag ''micropub_endpoints'' ''micropub''))"

text \<open>
  \<^verbatim>\<open>site.pop('rel_generators', []) + site.pop('meta_generators', [])\<close>: two lists are
  concatenated; any other pair of operands raises \<^verbatim>\<open>TypeError\<close>, at \<^verbatim>\<open>+\<close> or when the sum
  is iterated, except two strings, whose characters Python would iterate.
\<close>

definition generators :: "pydict \<Rightarrow> error + val list" where
  "generators site =
     (case (case dget ''rel_generators'' site of None \<Rightarrow> VList [] | Some v \<Rightarrow> v,
            case dget ''meta_generators'' site of None \<Rightarrow> VList [] | Some v \<Rightarrow> v) of
        (VList a, VList b) \<Rightarrow> Inr (a @ b)
      | (VStr a, VStr b) \<Rightarrow> Inl Unmodelled
      | _ \<Rightarrow> Inl TypeError)"

text \<open>
  One round of the loop over the generators: \<^verbatim>\<open>gen = SERVERS.get(gen, gen)\<close>, then
  \<^verbatim>\<open>servers = site.setdefault('servers', [])\<close> and \<^verbatim>\<open>servers.append(gen)\<close> unless it is there.
\<close>

definition server_step :: "val \<Rightarrow> pydict \<Rightarrow> error + pydict" where
  "server_step gen site =
     (case gen of
        VStr g \<Rightarrow>
          (let g' = (case dget g SERVERS of None \<Rightarrow> g | Some c \<Rightarrow> c);
               site' = setdefault ''servers'' (VList []) site
           in case dget ''servers'' site' of
                Some (VList l) \<Rightarrow>
                  Inr (if VStr g' \<in> set l then site'
                       else dset ''servers'' (VList (l @ [VStr g'])) site')
              | _ \<Rightarrow> Inl Unmodelled)
      | VList _ \<Rightarrow> Inl TypeError
      | VDict _ \<Rightarrow> Inl TypeError
      | _ \<Rightarrow> Inl Unmodelled)"

definition infer_servers :: "pydict \<Rightarrow> error + pydict" where
  "infer_servers site =
     and_then (generators site)
       (\<lambda>gens. thread server_step gens (dpop ''meta_generators'' (dpop ''rel_generators'' site)))"

text \<open>\<^verbatim>\<open>for server in site.get('servers', [])\<close>: a server of \<^verbatim>\<open>SERVER_TAGS\<close> becomes a tag.\<close>

definition server_tag_step :: "val \<Rightarrow> pydict \<Rightarrow> error + pydict" where
  "server_tag_step server site =
     (case server of
        VStr s \<Rightarrow> if s \<in> set SERVER_TAGS then tags_append s site else Inr site
      | VList _ \<Rightarrow> Inl TypeError
      | VDict _ \<Rightarrow> Inl TypeError
      | _ \<Rightarrow> Inr site)"

definition server_tags :: "pydict \<Rightarrow> error + pydict" where
  "server_tags site =
     (case dget ''servers'' site of
        None \<Rightarrow> Inr site
      | Some (VList l) \<Rightarrow> thread server_tag_step l site
      | Some _ \<Rightarrow> Inl Unmodelled)"

text \<open>
  \<^verbatim>\<open>convert = lambda ts: datetime(*time.gmtime(int(ts))[:6]).isoformat('T')\<close>. \<^verbatim>\<open>gmtime\<close>
  splits the seconds since the epoch into a proleptic Gregorian date and a time of day in
  UTC; \<^verbatim>\<open>datetime\<close> accepts the years 1 to 9999 only, and outside them the conversion
  raises (in \<^verbatim>\<open>datetime\<close>, or already in \<^verbatim>\<open>gmtime\<close> when the platform cannot represent the
  year), which the model reports as \<^verbatim>\<open>ValueError\<close>. \<^verbatim>\<open>isoformat('T')\<close> of a \<^verbatim>\<open>datetime\<close>
  without microseconds and without time zone is \<^verbatim>\<open>YYYY-MM-DDTHH:MM:SS\<close>.
\<close>

definition civil_from_days :: "int \<Rightarrow> int \<times> int \<times> int" where
  "civil_from_days z0 =
     (let z = z0 + 719468;
          era = z div 146097;
          doe = z - era * 146097;
          yoe = (doe - doe div 1460 + doe div 36524 - doe div 146096) div 365;
          y = yoe + era * 400;
          doy = doe - (365 * yoe + yoe div 4 - yoe div 100);
          mp = (5 * doy + 2) div 153;
          d = doy - (153 * mp + 2) div 5 + 1;
          m = (if mp < 10 then mp + 3 else mp - 9)
      in (if m \<le> 2 then y + 1 else y, m, d))"

definition gmtime :: "int \<Rightarrow> int \<times> int \<times> int \<times> int \<times> int \<times> int" where
  "gmtime t =
     (let (y, m, d) = civil_from_days (t div 86400);
          s = t mod 86400
      in (y, m, d, s div 3600, s mod 3600 div 60, s mod 60))"

definition digit_char :: "int \<Rightarrow> char" where
  "digit_char n = char_of (48 + nat n)"

definition pad2 :: "int \<Rightarrow> string" where
  "pad2 n = [digit_char (n div 10 mod 10), digit_char (n mod 10)]"

definition pad4 :: "int \<Rightarrow> string" where
  "pad4 n = pad2 (n div 100) @ pad2 (n mod 100)"

definition isoformat :: "int \<times> int \<times> int \<times> int \<times> int \<times> int \<Rightarrow> string" where
  "isoformat dt =
     (case dt of (y, m, d, hh, mm, ss) \<Rightarrow>
        pad4 y @ ''-'' @ pad2 m @ ''-'' @ pad2 d @ ''T'' @ pad2 hh @ '':'' @ pad2 mm @ '':'' @ pad2 ss)"

definition convert :: "val \<Rightarrow> error + val" where
  "convert ts =
     (case py_int ts of
        Inl e \<Rightarrow> Inl e
      | Inr t \<Rightarrow>
          if - 62135596800 \<le> t \<and> t \<le> 253402300799
          then Inr (VStr (isoformat (gmtime t)))
          else Inl ValueError)"

text \<open>
  The crawl times: \<^verbatim>\<open>fetch = site.pop('fetch_time', None)\<close>, then the two branches
  \<^verbatim>\<open>if start and end\<close> and \<^verbatim>\<open>elif fetch\<close>; \<^verbatim>\<open>site.get\<close> gives \<^verbatim>\<open>None\<close>, which is false,
  for a missing key.
\<close>

definition use_fetch :: "val option \<Rightarrow> pydict \<Rightarrow> pydict" where
  "use_fetch fetch site =
     (case fetch of
        None \<Rightarrow> site
      | Some f \<Rightarrow> if truthy f then dset ''crawl_end'' f (dset ''crawl_start'' f site) else site)"

definition crawl_times :: "pydict \<Rightarrow> error + pydict" where
  "crawl_times site0 =
     (let fetch = dget ''fetch_time'' site0;
          site = dpop ''fetch_time'' site0
      in case (dget ''crawl_start'' site, dget ''crawl_end'' site) of
           (Some start, Some fin) \<Rightarrow>
             if truthy start \<and> truthy fin
             then and_then (convert start)
                    (\<lambda>s. and_then (convert fin)
                       (\<lambda>e. Inr (dset ''crawl_end'' e (dset ''crawl_start'' s site))))
             else Inr (use_fetch fetch site)
         | _ \<Rightarrow> Inr (use_fetch fetch site))"

text \<open>
  \<^verbatim>\<open>json.loads(site.get('hcard', '{}')) or {}\<close>. Without the key the argument is the
  literal \<^verbatim>\<open>'{}'\<close>, which parses to the empty dictionary; a value that is not a string is
  refused by the parser with \<^verbatim>\<open>TypeError\<close>.
\<close>

definition hcard_value :: "config \<Rightarrow> pydict \<Rightarrow> error + val" where
  "hcard_value cfg site =
     (case dget ''hcard'' site of
        None \<Rightarrow> Inr (VDict [])
      | Some (VStr s) \<Rightarrow>
          (case cfg_loads cfg s of
             Inl e \<Rightarrow> Inl e
           | Inr v \<Rightarrow> Inr (if truthy v then v else VDict []))
      | Some _ \<Rightarrow> Inl TypeError)"

text \<open>An edge as the dictionary it is: the direction buckets in their order, then the score.\<close>

fun direction_key :: "direction \<Rightarrow> string" where
  "direction_key Out = ''out''"
| "direction_key In = ''in''"

definition stats_val :: "stats \<Rightarrow> val" where
  "stats_val st =
     VDict (map (\<lambda>(dir, cs). (direction_key dir, VDict (map (\<lambda>(mf2, n). (mf2, VInt n)) cs)))
                (st_buckets st)
            @ [(''score'', st_score st)])"

text \<open>
  \<^verbatim>\<open>sorted(domain_links.items(), key=lambda item: item[1]['score'], reverse=True)\<close>:
  Python's sort is stable, also with \<^verbatim>\<open>reverse=True\<close>, so it is the stable sort by the
  negated score.
\<close>

definition sorted_links :: "scored \<Rightarrow> string \<Rightarrow> (string \<times> stats) list" where
  "sorted_links scored domain =
     sort_key (\<lambda>item. - num_val (st_score (snd item)))
              (case dget domain scored of None \<Rightarrow> [] | Some domain_links \<Rightarrow> domain_links)"

definition attach :: "config \<Rightarrow> link_state \<Rightarrow> scored \<Rightarrow> string \<Rightarrow> pydict \<Rightarrow> error + pydict" where
  "attach cfg st scored domain site =
     and_then (hcard_value cfg site)
       (\<lambda>hcard. Inr (dupdate site
          [(''hcard'', hcard),
           (''links_out'', VInt (count_of domain (out_counts st))),
           (''links_in'', VInt (count_of domain (in_counts st))),
           (''links'', VDict (map (\<lambda>(t, s). (t, stats_val s)) (sorted_links scored domain)))]))"

text \<open>The body of the loop over \<^verbatim>\<open>sites + more_sites\<close>.\<close>

definition merged :: "(string \<times> pydict) list \<Rightarrow> string \<Rightarrow> pydict \<Rightarrow> pydict" where
  "merged all_extra domain site =
     dupdate site (case dget domain all_extra of None \<Rightarrow> [] | Some e \<Rightarrow> e)"

definition make_site ::
  "config \<Rightarrow> link_state \<Rightarrow> scored \<Rightarrow> (string \<times> pydict) list \<Rightarrow> pydict \<Rightarrow> error + pydict" where
  "make_site cfg st scored all_extra site =
     and_then (domain_field ''domain'' site) (\<lambda>domain.
     and_then (coerce_num_pages (dpop ''html'' (dpop ''mf2'' (merged all_extra domain site)))) (\<lambda>site.
     and_then (infer_tags cfg domain site) (\<lambda>site.
     and_then (infer_servers site) (\<lambda>site.
     and_then (server_tags site) (\<lambda>site.
     and_then (crawl_times site) (\<lambda>site.
     attach cfg st scored domain site))))))"

definition make_full :: "config \<Rightarrow> pydict list \<Rightarrow> pydict list \<Rightarrow> pydict list list \<Rightarrow> error + pydict list" where
  "make_full cfg sites single_links extras =
     and_then (load_links single_links) (\<lambda>st.
     and_then (score_links (links st)) (\<lambda>scored.
     and_then (collect_extra extras) (\<lambda>all_extra.
     and_then (each (domain_field ''domain'') sites) (\<lambda>site_domains.
     each (make_site cfg st scored all_extra)
          (sites @ more_sites (from_domains st) site_domains)))))"

section \<open>The derived views: \<^verbatim>\<open>make_base\<close> and \<^verbatim>\<open>make_internal\<close>\<close>

text \<open>
  \<^verbatim>\<open>copy.deepcopy\<close> is the identity on values. \<^verbatim>\<open>len\<close> is defined on dictionaries, lists
  and strings; \<^verbatim>\<open>.items()\<close> on dictionaries only.
\<close>

definition base_site :: "pydict \<Rightarrow> error + pydict" where
  "base_site site =
     (case dget ''links'' site of
        None \<Rightarrow> Inl (KeyError ''links'')
      | Some (VDict l) \<Rightarrow>
          Inr (if MAX_BASE_LINKS < length l
               then dset ''links_truncated'' (VBool True)
                      (dset ''links'' (VDict (take MAX_BASE_LINKS l)) site)
               else site)
      | Some (VList l) \<Rightarrow> if MAX_BASE_LINKS < length l then Inl AttributeError else Inr site
      | Some (VStr s) \<Rightarrow> Inl Unmodelled
      | Some _ \<Rightarrow> Inl TypeError)"

definition make_base :: "pydict list \<Rightarrow> error + pydict list" where
  "make_base full = each base_site full"

text \<open>\<^verbatim>\<open>site['domain'] in domains\<close>, for a set of strings.\<close>

definition in_domains :: "string set \<Rightarrow> pydict \<Rightarrow> error + bool" where
  "in_domains domains site =
     (case dget ''domain'' site of
        None \<Rightarrow> Inl (KeyError ''domain'')
      | Some (VStr d) \<Rightarrow> Inr (d \<in> domains)
      | Some (VList _) \<Rightarrow> Inl TypeError
      | Some (VDict _) \<Rightarrow> Inl TypeError
      | Some _ \<Rightarrow> Inr False)"

fun keep_internal :: "string set \<Rightarrow> pydict list \<Rightarrow> error + pydict list" where
  "keep_internal domains [] = Inr []"
| "keep_internal domains (site # full) =
     (case in_domains domains site of
        Inl e \<Rightarrow> Inl e
      | Inr b \<Rightarrow>
          (case keep_internal domains full of
             Inl e \<Rightarrow> Inl e
           | Inr rest \<Rightarrow> Inr (if b then site # rest else rest)))"

definition internal_site :: "string set \<Rightarrow> pydict \<Rightarrow> error + pydict" where
  "internal_site domains site =
     (case dget ''links'' site of
        None \<Rightarrow> Inr (dset ''links'' (VDict []) site)
      | Some (VDict l) \<Rightarrow>
          Inr (dset ''links'' (VDict (filter (\<lambda>(domain, val). domain \<in> domains) l)) site)
      | Some _ \<Rightarrow> Inl AttributeError)"

definition make_internal :: "pydict list \<Rightarrow> string set \<Rightarrow> error + pydict list" where
  "make_internal full domains =
     and_then (keep_internal domains full) (each (internal_site domains))"

text \<open>Reading an output record.\<close>

definition links_of :: "pydict \<Rightarrow> (string \<times> val) list" where
  "links_of site = (case dget ''links'' site of Some (VDict l) \<Rightarrow> l | _ \<Rightarrow> [])"

definition score_of :: "val \<Rightarrow> real" where
  "score_of edge =
     (case edge of
        VDict d \<Rightarrow> (case dget ''score'' d of Some s \<Rightarrow> num_val s | None \<Rightarrow> 0)
      | _ \<Rightarrow> 0)"

text \<open>Whether a record's domain belongs to a set of domains.\<close>

definition site_domain_in :: "string set \<Rightarrow> pydict \<Rightarrow> bool" where
  "site_domain_in domains site =
     (case dget ''domain'' site of Some (VStr d) \<Rightarrow> d \<in> domains | _ \<Rightarrow> False)"

text \<open>A small full view, used for the concrete instances below.\<close>

definition sample_full :: "pydict list" where
  "sample_full =
     [[(''domain'', VStr ''a.com''),
       (''links'', VDict [(''b.com'', VDict [(''score'', VInt 1)]),
                          (''c.com'', VDict [(''score'', VInt 0)])])],
      [(''domain'', VStr ''x.org''), (''links'', VDict [])]]"

text \<open>
  A configuration for the concrete instances below: no tag lists, and a parser that is
  given by its results on the strings the instances use, \<^verbatim>\<open>{}\<close>, \<^verbatim>\<open>null\<close> and \<^verbatim>\<open>[1, 2]\<close>,
  and that rejects the unterminated \<^verbatim>\<open>{\<close>, as \<^verbatim>\<open>json.loads\<close> does. It stands for the
  library at these strings only.
\<close>

definition sample_loads :: "string \<Rightarrow> error + val" where
  "sample_loads s =
     (case dget s [(''{}'', VDict []), (''null'', VNull), (''[1, 2]'', VList [VInt 1, VInt 2])] of
        Some v \<Rightarrow> Inr v
      | None \<Rightarrow> Inl JSONDecodeError)"

definition sample_cfg :: config where
  "sample_cfg = \<lparr>cfg_TAGS = [], cfg_loads = sample_loads\<rparr>"

text \<open>A full record with 501 links, to the domains \<^verbatim>\<open>a\<close>, \<^verbatim>\<open>aa\<close>, \<^verbatim>\<open>aaa\<close> and so on.\<close>

definition big_links :: "(string \<times> val) list" where
  "big_links = map (\<lambda>n. (replicate (Suc n) CHR ''a'', VDict [(''score'', VInt 0)])) [0..<501]"

definition big_site :: pydict where
  "big_site = [(''domain'', VStr ''hub.example''), (''links'', VDict big_links)]"

text \<open>
  The keys that the loop body of \<^verbatim>\<open>make_full\<close> removes or assigns; every other key of a
  record is a free-form field as far as the function is concerned.
\<close>

definition handled_keys :: "string list" where
  "handled_keys =
     [''mf2'', ''html'', ''num_pages'', ''tags'', ''rel_generators'', ''meta_generators'',
      ''servers'', ''fetch_time'', ''crawl_start'', ''crawl_end'', ''hcard'', ''links_out'',
      ''links_in'', ''links'']"

text \<open>A site record with crawl times and a fetch time, and the record made from it.\<close>

definition sample_site :: pydict where
  "sample_site =
     [(''domain'', VStr ''a.com''), (''fetch_time'', VStr ''2017-04-01T12:00:00''),
      (''crawl_start'', VInt 1491004800), (''crawl_end'', VInt 1491091199),
      (''title'', VStr ''A'')]"

definition sample_record :: pydict where
  "sample_record =
     [(''domain'', VStr ''a.com''),
      (''crawl_start'', VStr ''2017-04-01T00:00:00''),
      (''crawl_end'', VStr ''2017-04-01T23:59:59''),
      (''title'', VStr ''A''), (''tags'', VList []), (''hcard'', VDict []),
      (''links_out'', VInt 0), (''links_in'', VInt 0), (''links'', VDict [])]"

text \<open>
  What the loop body does to the crawl times, as a relation between the merged input record
  \<open>m\<close> and the output record \<open>out\<close>: when \<^verbatim>\<open>crawl_start\<close> and \<^verbatim>\<open>crawl_end\<close> are both
  there and true (for a number: not zero), each becomes the second-precision ISO-8601 time
  of its integer value; otherwise a \<^verbatim>\<open>fetch_time\<close> that is there and true becomes both
  fields; otherwise both fields are as in the input, absent when they were absent.
\<close>

definition both_crawl_times :: "pydict \<Rightarrow> bool" where
  "both_crawl_times m =
     (case (dget ''crawl_start'' m, dget ''crawl_end'' m) of
        (Some a, Some b) \<Rightarrow> truthy a \<and> truthy b
      | _ \<Rightarrow> False)"

definition iso_time_of :: "val option \<Rightarrow> val option \<Rightarrow> bool" where
  "iso_time_of field result =
     (case field of
        None \<Rightarrow> False
      | Some v \<Rightarrow>
          (\<exists>t. py_int v = Inr t \<and> - 62135596800 \<le> t \<and> t \<le> 253402300799 \<and>
               result = Some (VStr (isoformat (gmtime t)))))"

definition crawl_times_spec :: "pydict \<Rightarrow> pydict \<Rightarrow> bool" where
  "crawl_times_spec m out =
     (if both_crawl_times m
      then iso_time_of (dget ''crawl_start'' m) (dget ''crawl_start'' out) \<and>
           iso_time_of (dget ''crawl_end'' m) (dget ''crawl_end'' out)
      else (case dget ''fetch_time'' m of
              Some f \<Rightarrow>
                if truthy f
                then dget ''crawl_start'' out = Some f \<and> dget ''crawl_end'' out = Some f
                else dget ''crawl_start'' out = dget ''crawl_start'' m \<and>
                     dget ''crawl_end'' out = dget ''crawl_end'' m
            | None \<Rightarrow>
                dget ''crawl_start'' out = dget ''crawl_start'' m \<and>
                dget ''crawl_end'' out = dget ''crawl_end'' m))"

text \<open>
  What the loop body does to \<^verbatim>\<open>num_pages\<close> and to \<^verbatim>\<open>hcard\<close>, as relations between the
  merged input record \<open>m\<close> and the output record \<open>out\<close>.
\<close>

definition num_pages_spec :: "pydict \<Rightarrow> pydict \<Rightarrow> bool" where
  "num_pages_spec m out =
     (case dget ''num_pages'' m of
        None \<Rightarrow> dget ''num_pages'' out = None
      | Some v \<Rightarrow>
          if truthy v then \<exists>n. py_int v = Inr n \<and> dget ''num_pages'' out = Some (VInt n)
          else dget ''num_pages'' out = Some v)"

definition hcard_spec :: "config \<Rightarrow> pydict \<Rightarrow> pydict \<Rightarrow> bool" where
  "hcard_spec cfg m out =
     (case dget ''hcard'' m of
        None \<Rightarrow> dget ''hcard'' out = Some (VDict [])
      | Some (VStr s) \<Rightarrow>
          (\<exists>v. cfg_loads cfg s = Inr v \<and>
               dget ''hcard'' out = Some (if truthy v then v else VDict []))
      | Some _ \<Rightarrow> False)"

text \<open>
  The order in which a domain \<open>d\<close> first meets its partners during aggregation. An event
  touches \<^verbatim>\<open>links[from][to]\<close> and then \<^verbatim>\<open>links[to][from]\<close>, so \<open>d\<close> observes the target of
  an event it sends and the source of an event it receives; \<open>first_seen\<close> lists the
  partners without repetition, each at its first observation.
\<close>

definition observed :: "string \<Rightarrow> event \<Rightarrow> string list" where
  "observed d ev =
     (if ev_from ev = d then [ev_to ev] else []) @ (if ev_to ev = d then [ev_from ev] else [])"

definition note_key :: "'a \<Rightarrow> 'a list \<Rightarrow> 'a list" where
  "note_key x seen = (if x \<in> set seen then seen else seen @ [x])"

definition first_seen :: "string \<Rightarrow> event list \<Rightarrow> string list" where
  "first_seen d evs = fold note_key (concat (map (observed d) evs)) []"

text \<open>The position of the first occurrence of \<open>x\<close>, or the length of the list.\<close>

fun index_of :: "'a \<Rightarrow> 'a list \<Rightarrow> nat" where
  "index_of x [] = 0"
| "index_of x (y # ys) = (if x = y then 0 else Suc (index_of x ys))"

text \<open>
  A links mapping of a record of domain \<open>d\<close> is in order when each entry comes before every
  later one either by a greater score or, at equal score, by an earlier first observation of
  its target domain.
\<close>

definition comes_before :: "string \<Rightarrow> event list \<Rightarrow> string \<times> val \<Rightarrow> string \<times> val \<Rightarrow> bool" where
  "comes_before d evs a b =
     (score_of (snd b) < score_of (snd a) \<or>
      (score_of (snd a) = score_of (snd b) \<and>
       index_of (fst a) (first_seen d evs) < index_of (fst b) (first_seen d evs)))"

definition ordered_links :: "string \<Rightarrow> event list \<Rightarrow> (string \<times> val) list \<Rightarrow> bool" where
  "ordered_links d evs ls = sorted_wrt (comes_before d evs) ls"

text \<open>The edges of a domain in a graph, with \<^verbatim>\<open>links.get(domain, {})\<close>.\<close>

definition edges :: "(string \<times> (string \<times> 'a) list) list \<Rightarrow> string \<Rightarrow> (string \<times> 'a) list" where
  "edges g d = (case dget d g of None \<Rightarrow> [] | Some es \<Rightarrow> es)"

text \<open>
  A record made for the site record \<open>site\<close> has its links in order when they are in order
  for the domain that \<open>site\<close> names.
\<close>

definition in_order :: "event list \<Rightarrow> pydict \<Rightarrow> pydict \<Rightarrow> bool" where
  "in_order evs site r =
     (\<exists>d. domain_field ''domain'' site = Inr d \<and> ordered_links d evs (links_of r))"

text \<open>
  Three link events for the instance of the ordering: \<^verbatim>\<open>d.com\<close> links to \<^verbatim>\<open>a.com\<close> once,
  then \<^verbatim>\<open>a.com\<close> replies three times to \<^verbatim>\<open>b.com\<close> and three times to \<^verbatim>\<open>c.com\<close>. So
  \<^verbatim>\<open>a.com\<close> observes \<^verbatim>\<open>d.com\<close> first, with raw score \<open>1\<close>, and then \<^verbatim>\<open>b.com\<close> and \<^verbatim>\<open>c.com\<close>,
  both with the maximal raw score \<open>30\<close>.
\<close>

definition sample_links :: "pydict list" where
  "sample_links =
     [link_rec ''d.com'' ''a.com'' 1 ''other'',
      link_rec ''a.com'' ''b.com'' 3 ''in-reply-to'',
      link_rec ''a.com'' ''c.com'' 3 ''u-in-reply-to'']"

definition sample_events :: "event list" where
  "sample_events =
     [\<lparr>ev_from = ''d.com'', ev_to = ''a.com'', ev_num = 1, ev_mf2 = ''other''\<rparr>,
      \<lparr>ev_from = ''a.com'', ev_to = ''b.com'', ev_num = 3, ev_mf2 = ''in-reply-to''\<rparr>,
      \<lparr>ev_from = ''a.com'', ev_to = ''c.com'', ev_num = 3, ev_mf2 = ''in-reply-to''\<rparr>]"

definition sample_a :: pydict where
  "sample_a =
     [(''domain'', VStr ''a.com''), (''tags'', VList []), (''hcard'', VDict []),
      (''links_out'', VInt 6), (''links_in'', VInt 1),
      (''links'', VDict
         [(''b.com'', VDict [(''out'', VDict [(''in-reply-to'', VInt 3)]),
                             (''score'', normalize (dec_ln 30) 30)]),
          (''c.com'', VDict [(''out'', VDict [(''in-reply-to'', VInt 3)]),
                             (''score'', normalize (dec_ln 30) 30)]),
          (''d.com'', VDict [(''in'', VDict [(''other'', VInt 1)]),
                             (''score'', VInt 0)])])]"

definition sample_d :: pydict where
  "sample_d =
     [(''domain'', VStr ''d.com''), (''tags'', VList []), (''hcard'', VDict []),
      (''links_out'', VInt 1), (''links_in'', VInt 0),
      (''links'', VDict
         [(''a.com'', VDict [(''out'', VDict [(''other'', VInt 1)]),
                             (''score'', normalize (dec_ln 2) 2)])])]"

(*PROPERTIES*)

section \<open>Properties of the aggregation\<close>

lemma dget_dmodify:
  "dget k' (dmodify k z f d) =
     (if k' = k then Some (f (case dget k d of None \<Rightarrow> z | Some v \<Rightarrow> v)) else dget k' d)"
  by (induction d) auto

lemma cnt_bump_edge:
  "cnt (bump_edge a b dir m n g) a' b' dir' m' =
     cnt g a' b' dir' m' + (if a' = a \<and> b' = b \<and> dir' = dir \<and> m' = m then n else 0)"
  by (auto simp: cnt_def bump_edge_def dget_dmodify split: option.splits)

lemma cnt_add_event:
  "cnt (links (add_event ev st)) a b Out c = cnt (links (add_event ev st)) b a In c
   \<longleftrightarrow> cnt (links st) a b Out c = cnt (links st) b a In c"
  by (auto simp: add_event_def cnt_bump_edge)

lemma load_from_symmetry:
  "load_from st ls = Inr st' \<Longrightarrow>
   (\<forall>a b c. cnt (links st) a b Out c = cnt (links st) b a In c) \<Longrightarrow>
   cnt (links st') a b Out c = cnt (links st') b a In c"
proof (induction ls arbitrary: st)
  case Nil
  then show ?case by simp
next
  case (Cons l ls)
  then show ?case by (auto split: sum.splits simp: cnt_add_event)
qed

lemma sum_dmodify:
  "w (f z) = w z + n \<Longrightarrow> w z = 0 \<Longrightarrow> (\<And>v. w (f v) = w v + n) \<Longrightarrow>
   sum_list (map (\<lambda>(k, v). w v) (dmodify k z f d)) = sum_list (map (\<lambda>(k, v). w v) d) + (n::int)"
  by (induction d) auto

lemma sum_counts_bump:
  "sum_list (map snd (dmodify m 0 (\<lambda>c. c + n) cs)) = sum_list (map snd cs) + (n::int)"
  by (induction cs) auto

lemma bucket_total_modify:
  "bucket_total dir' (dmodify dir [] (dmodify m 0 (\<lambda>c. c + n)) bk) =
     bucket_total dir' bk + (if dir' = dir then n else 0)"
  by (auto simp: bucket_total_def dget_dmodify sum_counts_bump split: option.splits)

lemma domain_total_bump:
  "domain_total dir' (bump_edge a b dir m n g) d =
     domain_total dir' g d + (if d = a \<and> dir' = dir then n else 0)"
proof -
  let ?f = "dmodify dir [] (dmodify m 0 (\<lambda>c. c + n))"
  let ?k = "(if dir' = dir then n else 0)"
  have "sum_list (map (\<lambda>(x, bk). bucket_total dir' bk) (dmodify b [] ?f es)) =
        sum_list (map (\<lambda>(x, bk). bucket_total dir' bk) es) + ?k" for es
    by (rule sum_dmodify) (simp_all add: bucket_total_modify, simp_all add: bucket_total_def)
  from this [of "[]"] this show ?thesis
    by (auto simp: domain_total_def bump_edge_def dget_dmodify simp del: dmodify.simps
             split: option.splits)
qed

lemma count_of_bump:
  "count_of d' (dmodify d 0 (\<lambda>c. c + n) cs) = count_of d' cs + (if d' = d then n else 0)"
  by (auto simp: count_of_def dget_dmodify split: option.splits)

lemma conservation_step:
  "count_of d (out_counts st) = domain_total Out (links st) d \<and>
   count_of d (in_counts st) = domain_total In (links st) d \<Longrightarrow>
   count_of d (out_counts (add_event ev st)) = domain_total Out (links (add_event ev st)) d \<and>
   count_of d (in_counts (add_event ev st)) = domain_total In (links (add_event ev st)) d"
  by (simp add: add_event_def count_of_bump domain_total_bump)

lemma load_from_conservation:
  "load_from st ls = Inr st' \<Longrightarrow>
   count_of d (out_counts st) = domain_total Out (links st) d \<and>
   count_of d (in_counts st) = domain_total In (links st) d \<Longrightarrow>
   count_of d (out_counts st') = domain_total Out (links st') d \<and>
   count_of d (in_counts st') = domain_total In (links st') d"
proof (induction ls arbitrary: st)
  case Nil
  then show ?case by simp
next
  case (Cons l ls)
  from Cons.prems(1) obtain ev where ev: "read_link l = Inr ev"
    and rest: "load_from (add_event ev st) ls = Inr st'"
    by (auto split: sum.splits)
  show ?case by (rule Cons.IH [OF rest conservation_step [OF Cons.prems(2)]])
qed

lemma load_links_sample:
  "load_links [link_rec ''a.com'' ''b.com'' 3 ''u-in-reply-to'', link_rec ''a.com'' ''c.com'' 2 ''like-of'']
   = Inr \<lparr>links =
            [(''a.com'', [(''b.com'', [(Out, [(''in-reply-to'', 3)])]),
                          (''c.com'', [(Out, [(''like-of'', 2)])])]),
             (''b.com'', [(''a.com'', [(In, [(''in-reply-to'', 3)])])]),
             (''c.com'', [(''a.com'', [(In, [(''like-of'', 2)])])])],
           from_domains = [''a.com''],
           out_counts = [(''a.com'', 5)],
           in_counts = [(''b.com'', 3), (''c.com'', 2)]\<rparr>"
  by (simp add: load_links_def empty_state_def link_rec_def read_link_def domain_field_def
                mf2_field_def add_event_def bump_edge_def)

text \<open>
  C4 (symmetry). Whenever \<^verbatim>\<open>load_links\<close> returns, for every ordered pair of domains
  \<open>(a, b)\<close> and every micro-format class \<open>c\<close> the count accumulated in
  \<^verbatim>\<open>links[a][b]['out'][c]\<close> equals the count accumulated in \<^verbatim>\<open>links[b][a]['in'][c]\<close>.
\<close>

theorem load_links_symmetry:
  "load_links ls = Inr st \<Longrightarrow> cnt (links st) a b Out c = cnt (links st) b a In c"
  unfolding load_links_def
  by (erule load_from_symmetry) (simp add: empty_state_def cnt_def)

theorem load_links_symmetry_witness:
  "cnt [(''a.com'', [(''b.com'', [(Out, [(''in-reply-to'', 3)])]),
                     (''c.com'', [(Out, [(''like-of'', 2)])])]),
        (''b.com'', [(''a.com'', [(In, [(''in-reply-to'', 3)])])]),
        (''c.com'', [(''a.com'', [(In, [(''like-of'', 2)])])])]
       ''a.com'' ''b.com'' Out ''in-reply-to''
   = cnt [(''a.com'', [(''b.com'', [(Out, [(''in-reply-to'', 3)])]),
                       (''c.com'', [(Out, [(''like-of'', 2)])])]),
          (''b.com'', [(''a.com'', [(In, [(''in-reply-to'', 3)])])]),
          (''c.com'', [(''a.com'', [(In, [(''like-of'', 2)])])])]
         ''b.com'' ''a.com'' In ''in-reply-to''"
  using load_links_symmetry [OF load_links_sample, of "''a.com''" "''b.com''" "''in-reply-to''"]
  by simp

text \<open>
  C5 (conservation). Whenever \<^verbatim>\<open>load_links\<close> returns, for every domain \<open>d\<close> the total
  \<^verbatim>\<open>out_counts.get(d) or 0\<close> that \<^verbatim>\<open>make_full\<close> stores as \<^verbatim>\<open>links_out\<close> equals the sum,
  over all edges \<open>d \<rightarrow> x\<close>, of all \<^verbatim>\<open>'out'\<close> class counts of the edge, and the total
  stored as \<^verbatim>\<open>links_in\<close> equals the same sum over the \<^verbatim>\<open>'in'\<close> class counts.
\<close>

theorem load_links_conservation:
  "load_links ls = Inr st \<Longrightarrow>
   count_of d (out_counts st) = domain_total Out (links st) d \<and>
   count_of d (in_counts st) = domain_total In (links st) d"
  unfolding load_links_def
  by (erule load_from_conservation)
     (simp add: empty_state_def count_of_def domain_total_def)

theorem load_links_conservation_witness:
  "count_of ''a.com'' [(''a.com'', 5)] =
     domain_total Out
       [(''a.com'', [(''b.com'', [(Out, [(''in-reply-to'', 3)])]),
                     (''c.com'', [(Out, [(''like-of'', 2)])])]),
        (''b.com'', [(''a.com'', [(In, [(''in-reply-to'', 3)])])]),
        (''c.com'', [(''a.com'', [(In, [(''like-of'', 2)])])])] ''a.com''
   \<and> count_of ''a.com'' [(''a.com'', 5)] = 5"
  using load_links_conservation [OF load_links_sample, of "''a.com''"]
  by (simp add: count_of_def)

section \<open>Properties of the scoring\<close>

lemma round_half_even_of_int: "round_half_even (of_int n) = n"
  by (simp add: round_half_even_def)

lemma quantize3_one: "quantize3 1 = 1"
proof -
  have p: "10 powr (of_int (- 2) :: real) = 1 / 100"
    by (simp add: powr_minus_divide)
  have "(1::real) / (1 / 100) = of_int 100" by simp
  then have r: "round_half_even ((1::real) / (1 / 100)) = 100"
    by (simp only: round_half_even_of_int)
  have "quantize3 1 = of_int (round_half_even (1 / 10 powr (of_int (- 2)))) * 10 powr (of_int (- 2))"
    by (simp add: quantize3_def)
  also have "\<dots> = 1" unfolding p r by simp
  finally show ?thesis .
qed

lemma dec_div_self: "x \<noteq> 0 \<Longrightarrow> dec_div x x = 1"
  by (simp add: dec_div_def quantize3_one)

lemma max_score_from_ge: "m \<le> max_score_from m rs"
  by (induction m rs rule: max_score_from.induct) (auto split: if_splits)

lemma max_score_from_upper: "(t, bk, s) \<in> set rs \<Longrightarrow> s \<le> max_score_from m rs"
proof (induction m rs rule: max_score_from.induct)
  case (1 m)
  then show ?case by simp
next
  case (2 m t' bk' s' rs)
  then show ?case
    using max_score_from_ge [of "if m < s' then s' else m" rs]
    by (auto split: if_splits)
qed

lemma normalize_max: "1 < m \<Longrightarrow> num_val (normalize (dec_ln m) m) = 1"
  by (auto simp: normalize_def dec_div_self)

lemma normalize_low: "s \<le> 1 \<Longrightarrow> normalize l s = VInt 0"
  by (simp add: normalize_def)

lemma score_domain_result:
  "score_domain es = Inr ses \<Longrightarrow>
   \<exists>rs. raw_scores es = Inr rs \<and> 0 < max_score_from 0 rs \<and>
        ses = map (\<lambda>(t, bk, s). (t, \<lparr>st_buckets = bk,
                     st_score = normalize (dec_ln (max_score_from 0 rs)) s\<rparr>)) rs"
  by (auto simp: score_domain_def Let_def split: sum.splits if_splits)

text \<open>What scoring guarantees for one domain whenever it returns.\<close>

lemma score_domain_normalized:
  assumes "score_domain es = Inr ses"
  shows "\<exists>rs. raw_scores es = Inr rs \<and> 1 \<le> max_score_from 0 rs \<and>
           list_all2 (\<lambda>(t, bk, s) (t', st). t' = t \<and> st_buckets st = bk \<and>
                        (1 < max_score_from 0 rs \<and> s = max_score_from 0 rs
                           \<longrightarrow> num_val (st_score st) = 1) \<and>
                        (max_score_from 0 rs \<le> 1 \<longrightarrow> st_score st = VInt 0)) rs ses"
proof -
  from score_domain_result [OF assms] obtain rs where
    rs: "raw_scores es = Inr rs" and pos: "0 < max_score_from 0 rs" and
    ses: "ses = map (\<lambda>(t, bk, s). (t, \<lparr>st_buckets = bk,
                     st_score = normalize (dec_ln (max_score_from 0 rs)) s\<rparr>)) rs"
    by blast
  let ?m = "max_score_from 0 rs"
  have pt: "(1 < ?m \<and> s = ?m \<longrightarrow> num_val (normalize (dec_ln ?m) s) = 1) \<and>
          (?m \<le> 1 \<longrightarrow> normalize (dec_ln ?m) s = VInt 0)"
    if "(t, bk, s) \<in> set rs" for t bk s
    using max_score_from_upper [OF that, of 0]
    by (auto simp: normalize_max normalize_low)
  have "list_all2 (\<lambda>(t, bk, s) (t', st). t' = t \<and> st_buckets st = bk \<and>
                        (1 < ?m \<and> s = ?m \<longrightarrow> num_val (st_score st) = 1) \<and>
                        (?m \<le> 1 \<longrightarrow> st_score st = VInt 0)) rs ses"
    unfolding ses list_all2_map2
    by (rule list_all2_all_nthI) (use pt in \<open>auto split: prod.splits dest!: nth_mem\<close>)
  with rs pos show ?thesis by auto
qed

lemma raw_scores_zero:
  "raw_scores [(''b.com'', [(Out, [(''other'', 0)])])] =
     Inr [(''b.com'', [(Out, [(''other'', 0)])], 0)]"
  by code_simp

lemma load_links_zero:
  "load_links [link_rec ''a.com'' ''b.com'' 0 ''other''] =
     Inr \<lparr>links = [(''a.com'', [(''b.com'', [(Out, [(''other'', 0)])])]),
                   (''b.com'', [(''a.com'', [(In, [(''other'', 0)])])])],
          from_domains = [''a.com''],
          out_counts = [(''a.com'', 0)],
          in_counts = [(''b.com'', 0)]\<rparr>"
  by (simp add: load_links_def empty_state_def link_rec_def read_link_def domain_field_def
                mf2_field_def add_event_def bump_edge_def)

text \<open>
  C1. Whenever scoring returns, the claim holds (\<open>score_domain_normalized\<close>): the maximum
  raw score of every domain is then at least \<open>1\<close>, the edges that attain a maximum above
  \<open>1\<close> get exactly \<open>1\<close>, and a maximum of \<open>1\<close> gives \<open>0\<close> on every edge. But for a
  domain whose maximum raw score is \<open>0\<close>, which the claim's case \<open>\<le> 1\<close> includes,
  scoring does not return: for the single link event from \<^verbatim>\<open>a.com\<close> to \<^verbatim>\<open>b.com\<close> with
  \<^verbatim>\<open>num = 0\<close>, \<^verbatim>\<open>max_score\<close> is still the integer \<open>0\<close> when \<^verbatim>\<open>max_score.ln()\<close> is called,
  and the run aborts with \<^verbatim>\<open>AttributeError\<close> instead of giving the edge the score \<open>0\<close>.
\<close>

theorem scoring_aborts_on_zero_maximum:
  "(case load_links [link_rec ''a.com'' ''b.com'' 0 ''other''] of
      Inl e \<Rightarrow> Inl e
    | Inr st \<Rightarrow> score_links (links st)) = Inl AttributeError"
  unfolding load_links_zero
  by (simp add: score_domain_def raw_scores_zero del: raw_scores.simps)

section \<open>Properties of the views\<close>

lemma dget_dset: "dget k' (dset k v d) = (if k' = k then Some v else dget k' d)"
  by (induction d) auto

lemma dget_dpop: "dget k' (dpop k d) = (if k' = k then None else dget k' d)"
  by (induction d) (auto simp: dpop_def)

lemma dget_dupdate:
  "dget k (dupdate d e) = (case dget k (rev e) of Some v \<Rightarrow> Some v | None \<Rightarrow> dget k d)"
proof (induction e arbitrary: d)
  case Nil
  then show ?case by simp
next
  case (Cons a e)
  obtain k' v' where a: "a = (k', v')" by (cases a)
  have app: "dget k (xs @ [(k', v')]) =
       (case dget k xs of Some v \<Rightarrow> Some v | None \<Rightarrow> if k = k' then Some v' else None)" for xs
    by (induction xs) auto
  show ?case
    by (simp add: a Cons.IH dget_dset app split: option.splits)
qed

lemma and_then_Inr:
  "and_then x f = Inr y \<longleftrightarrow> (\<exists>a. x = Inr a \<and> f a = Inr y)"
  by (cases x) (auto simp: and_then_def)

lemma each_Inr_length: "each f xs = Inr ys \<Longrightarrow> length ys = length xs"
  by (induction xs arbitrary: ys) (auto split: sum.splits)

lemma each_Inr_all2: "each f xs = Inr ys \<Longrightarrow> list_all2 (\<lambda>x y. f x = Inr y) xs ys"
  by (induction xs arbitrary: ys) (auto split: sum.splits)

lemma each_total: "(\<And>x. x \<in> set xs \<Longrightarrow> \<exists>y. f x = Inr y) \<Longrightarrow> \<exists>ys. each f xs = Inr ys"
proof (induction xs)
  case Nil
  then show ?case by simp
next
  case (Cons x xs)
  then obtain y ys where "f x = Inr y" "each f xs = Inr ys" by (meson list.set_intros)
  then show ?case by simp
qed

lemma keep_internal_filter:
  "keep_internal domains full = Inr kept \<Longrightarrow> kept = filter (site_domain_in domains) full"
proof (induction full arbitrary: kept)
  case Nil
  then show ?case by simp
next
  case (Cons site full)
  from Cons.prems obtain b rest where b: "in_domains domains site = Inr b"
    and rest: "keep_internal domains full = Inr rest"
    and kept: "kept = (if b then site # rest else rest)"
    by (auto split: sum.splits)
  from b have "b = site_domain_in domains site"
    by (auto simp: in_domains_def site_domain_in_def split: option.splits val.splits)
  with Cons.IH [OF rest] kept show ?case by simp
qed

lemma internal_site_result:
  "internal_site domains site = Inr i \<Longrightarrow>
   dget ''links'' i = Some (VDict (filter (\<lambda>(d, v). d \<in> domains) (links_of site))) \<and>
   (\<forall>k. k \<noteq> ''links'' \<longrightarrow> dget k i = dget k site)"
  by (auto simp: internal_site_def links_of_def dget_dset split: option.splits val.splits)

lemma make_internal_result:
  assumes "make_internal full domains = Inr internal"
  shows "list_all2 (\<lambda>site i.
            dget ''links'' i = Some (VDict (filter (\<lambda>(d, v). d \<in> domains) (links_of site))) \<and>
            (\<forall>k. k \<noteq> ''links'' \<longrightarrow> dget k i = dget k site))
          (filter (site_domain_in domains) full) internal"
proof -
  from assms obtain kept where k: "keep_internal domains full = Inr kept"
    and e: "each (internal_site domains) kept = Inr internal"
    by (auto simp: make_internal_def and_then_Inr)
  from each_Inr_all2 [OF e]
  have "list_all2 (\<lambda>site i. internal_site domains site = Inr i) kept internal" .
  then show ?thesis
    unfolding keep_internal_filter [OF k]
    by (rule list_all2_mono) (use internal_site_result in blast)
qed

lemma make_internal_sample:
  "make_internal sample_full {''a.com'', ''b.com''} =
     Inr [[(''domain'', VStr ''a.com''),
           (''links'', VDict [(''b.com'', VDict [(''score'', VInt 1)])])]]"
  by (simp add: make_internal_def sample_full_def and_then_def in_domains_def internal_site_def)

text \<open>
  C3. Whenever \<^verbatim>\<open>make_internal\<close> returns, the internal view consists of exactly the full
  records whose domain is in the supplied set, in their order (the others are dropped, with
  no stub left), and each kept record is the full record with its \<^verbatim>\<open>links\<close> replaced by
  exactly the entries of the full record's links whose target domain is in the set; every
  other field is unchanged.
\<close>

theorem make_internal_restricts:
  "make_internal full domains = Inr internal \<Longrightarrow>
   list_all2 (\<lambda>site i.
        dget ''links'' i = Some (VDict (filter (\<lambda>(d, v). d \<in> domains) (links_of site))) \<and>
        (\<forall>k. k \<noteq> ''links'' \<longrightarrow> dget k i = dget k site))
     (filter (site_domain_in domains) full) internal"
  by (rule make_internal_result)

theorem make_internal_restricts_witness:
  "list_all2 (\<lambda>site i.
        dget ''links'' i =
          Some (VDict (filter (\<lambda>(d, v). d \<in> {''a.com'', ''b.com''}) (links_of site))) \<and>
        (\<forall>k. k \<noteq> ''links'' \<longrightarrow> dget k i = dget k site))
     (filter (site_domain_in {''a.com'', ''b.com''}) sample_full)
     [[(''domain'', VStr ''a.com''),
       (''links'', VDict [(''b.com'', VDict [(''score'', VInt 1)])])]]"
  using make_internal_restricts [OF make_internal_sample] .

lemmas run_defs =
  make_full_def make_site_def and_then_def load_links_def empty_state_def collect_extra_def
  add_extra_def domain_field_def more_sites_def merged_def coerce_num_pages_def infer_tags_def
  setdefault_def tags_append_def tag_step_def endpoint_tag_def infer_servers_def generators_def
  server_step_def server_tags_def server_tag_step_def crawl_times_def use_fetch_def
  hcard_value_def attach_def sorted_links_def count_of_def dpop_def sample_cfg_def
  sample_loads_def make_base_def base_site_def MAX_BASE_LINKS_def links_of_def

lemma base_site_result:
  "base_site site = Inr b \<Longrightarrow>
   length (links_of b) \<le> 500 \<and>
   (500 < length (links_of site) \<longrightarrow>
      links_of b = take 500 (links_of site) \<and> dget ''links_truncated'' b = Some (VBool True)) \<and>
   (length (links_of site) \<le> 500 \<longrightarrow> b = site)"
  by (auto simp: base_site_def links_of_def MAX_BASE_LINKS_def dget_dset
           split: option.splits val.splits if_splits)

lemma make_base_big:
  "make_base [big_site] =
     Inr [[(''domain'', VStr ''hub.example''), (''links'', VDict (take 500 big_links)),
           (''links_truncated'', VBool True)]]"
  by (simp add: make_base_def base_site_def big_site_def big_links_def MAX_BASE_LINKS_def)

text \<open>
  C2, as the code has it. Whenever \<^verbatim>\<open>make_base\<close> returns, every base record has at most
  500 links; when the full record has more than 500, the base record keeps exactly the first
  500 entries and has \<^verbatim>\<open>links_truncated\<close> equal to \<^verbatim>\<open>True\<close>; otherwise the base record is
  the full record, unchanged. So no flag is added in that case, but a \<^verbatim>\<open>links_truncated\<close>
  field that the full record already carries stays.
\<close>

theorem make_base_caps_links:
  "make_base full = Inr base \<Longrightarrow>
   list_all2 (\<lambda>site b.
        length (links_of b) \<le> 500 \<and>
        (500 < length (links_of site) \<longrightarrow>
           links_of b = take 500 (links_of site) \<and>
           dget ''links_truncated'' b = Some (VBool True)) \<and>
        (length (links_of site) \<le> 500 \<longrightarrow> b = site))
     full base"
  unfolding make_base_def
  by (drule each_Inr_all2, erule list_all2_mono) (rule base_site_result)

theorem make_base_caps_links_witness:
  "500 < length (links_of big_site) \<and>
   links_of [(''domain'', VStr ''hub.example''), (''links'', VDict (take 500 big_links)),
             (''links_truncated'', VBool True)] = take 500 (links_of big_site) \<and>
   length (take 500 (links_of big_site)) = 500"
  using make_base_caps_links [OF make_base_big]
  by (simp add: links_of_def big_site_def big_links_def)

text \<open>
  C2 as stated fails where it says that the flag is absent from every base record that was
  not truncated: \<^verbatim>\<open>make_full\<close> carries an input field named \<^verbatim>\<open>links_truncated\<close> through,
  and \<^verbatim>\<open>make_base\<close> leaves the record as it is.
\<close>

theorem make_base_flag_counterexample:
  "make_full sample_cfg [[(''domain'', VStr ''a.com''), (''links_truncated'', VBool False)]] [] [] =
     Inr [[(''domain'', VStr ''a.com''), (''links_truncated'', VBool False),
           (''tags'', VList []), (''hcard'', VDict []), (''links_out'', VInt 0),
           (''links_in'', VInt 0), (''links'', VDict [])]] \<and>
   make_base [[(''domain'', VStr ''a.com''), (''links_truncated'', VBool False),
               (''tags'', VList []), (''hcard'', VDict []), (''links_out'', VInt 0),
               (''links_in'', VInt 0), (''links'', VDict [])]] =
     Inr [[(''domain'', VStr ''a.com''), (''links_truncated'', VBool False),
           (''tags'', VList []), (''hcard'', VDict []), (''links_out'', VInt 0),
           (''links_in'', VInt 0), (''links'', VDict [])]] \<and>
   dget ''links_truncated''
     [(''domain'', VStr ''a.com''), (''links_truncated'', VBool False),
      (''tags'', VList []), (''hcard'', VDict []), (''links_out'', VInt 0),
      (''links_in'', VInt 0), (''links'', VDict [])] = Some (VBool False)"
  by (simp add: run_defs)

section \<open>Properties of the site assembly\<close>

text \<open>Each step changes only the keys it names.\<close>

lemma thread_frame:
  assumes "thread f xs s = Inr s'"
    and "\<And>x s s'. f x s = Inr s' \<Longrightarrow> dget k s' = dget k s"
  shows "dget k s' = dget k s"
  using assms(1)
proof (induction xs arbitrary: s)
  case Nil
  then show ?case by simp
next
  case (Cons x xs)
  from Cons.prems obtain s1 where a: "f x s = Inr s1" and b: "thread f xs s1 = Inr s'"
    by (auto split: sum.splits)
  from Cons.IH [OF b] assms(2) [OF a] show ?case by simp
qed

lemma coerce_num_pages_frame:
  "coerce_num_pages s = Inr s' \<Longrightarrow> k \<noteq> ''num_pages'' \<Longrightarrow> dget k s' = dget k s"
  by (auto simp: coerce_num_pages_def dget_dset split: option.splits if_splits sum.splits)

lemma tags_append_frame:
  "tags_append t s = Inr s' \<Longrightarrow> k \<noteq> ''tags'' \<Longrightarrow> dget k s' = dget k s"
  by (auto simp: tags_append_def dget_dset split: option.splits val.splits)

lemma setdefault_frame: "k \<noteq> k' \<Longrightarrow> dget k (setdefault k' v s) = dget k s"
  by (auto simp: setdefault_def dget_dset split: option.splits)

lemma infer_tags_frame:
  assumes "infer_tags cfg d s = Inr s'" and "k \<noteq> ''tags''"
  shows "dget k s' = dget k s"
proof -
  from assms(1) obtain s1 s2 where
    a: "thread (tag_step d) (cfg_TAGS cfg) (setdefault ''tags'' (VList []) s) = Inr s1" and
    b: "endpoint_tag ''webmention_endpoints'' ''webmention'' s1 = Inr s2" and
    c: "endpoint_tag ''micropub_endpoints'' ''micropub'' s2 = Inr s'"
    by (auto simp: infer_tags_def and_then_Inr)
  have step: "tag_step d x t = Inr t' \<Longrightarrow> dget k t' = dget k t" for x t t'
    using assms(2) by (auto simp: tag_step_def tags_append_frame split: if_splits)
  have ep: "endpoint_tag f g t = Inr t' \<Longrightarrow> dget k t' = dget k t" for f g t t'
    using assms(2) by (auto simp: endpoint_tag_def tags_append_frame split: option.splits if_splits)
  from thread_frame [OF a step] ep [OF b] ep [OF c] assms(2)
  show ?thesis by (simp add: setdefault_frame)
qed

lemma server_step_frame:
  "server_step g s = Inr s' \<Longrightarrow> k \<noteq> ''servers'' \<Longrightarrow> dget k s' = dget k s"
  by (auto simp: server_step_def Let_def dget_dset setdefault_frame
           split: val.splits option.splits if_splits)

lemma infer_servers_frame:
  assumes "infer_servers s = Inr s'"
    and "k \<noteq> ''servers''" "k \<noteq> ''rel_generators''" "k \<noteq> ''meta_generators''"
  shows "dget k s' = dget k s"
proof -
  from assms(1) obtain gens where
    t: "thread server_step gens (dpop ''meta_generators'' (dpop ''rel_generators'' s)) = Inr s'"
    by (auto simp: infer_servers_def and_then_Inr)
  have "dget k s' = dget k (dpop ''meta_generators'' (dpop ''rel_generators'' s))"
    by (rule thread_frame [OF t]) (rule server_step_frame [OF _ assms(2)])
  with assms show ?thesis by (simp add: dget_dpop)
qed

lemma server_tags_frame:
  assumes "server_tags s = Inr s'" and "k \<noteq> ''tags''"
  shows "dget k s' = dget k s"
proof -
  have step: "server_tag_step x t = Inr t' \<Longrightarrow> dget k t' = dget k t" for x t t'
    using assms(2)
    by (auto simp: server_tag_step_def tags_append_frame split: val.splits if_splits)
  from assms(1) show ?thesis
    by (auto simp: server_tags_def split: option.splits val.splits
             intro: thread_frame [OF _ step])
qed

lemma use_fetch_frame:
  "k \<noteq> ''crawl_start'' \<Longrightarrow> k \<noteq> ''crawl_end'' \<Longrightarrow> dget k (use_fetch f s) = dget k s"
  by (auto simp: use_fetch_def dget_dset split: option.splits)

lemma crawl_times_frame:
  assumes "crawl_times s = Inr s'"
  shows "dget ''fetch_time'' s' = None"
    and "k \<noteq> ''fetch_time'' \<Longrightarrow> k \<noteq> ''crawl_start'' \<Longrightarrow> k \<noteq> ''crawl_end'' \<Longrightarrow>
         dget k s' = dget k s"
  using assms
  by (auto simp: crawl_times_def Let_def and_then_Inr dget_dset dget_dpop use_fetch_frame
           split: option.splits if_splits prod.splits)

lemma attach_frame:
  assumes "attach cfg st scored d s = Inr s'"
    and "k \<noteq> ''hcard''" "k \<noteq> ''links_out''" "k \<noteq> ''links_in''" "k \<noteq> ''links''"
  shows "dget k s' = dget k s"
  using assms by (auto simp: attach_def and_then_Inr dget_dset)

lemma make_site_steps:
  assumes "make_site cfg st scored all_extra site = Inr out"
  obtains d s1 s2 s3 s4 s5 where
    "domain_field ''domain'' site = Inr d"
    "coerce_num_pages (dpop ''html'' (dpop ''mf2'' (merged all_extra d site))) = Inr s1"
    "infer_tags cfg d s1 = Inr s2"
    "infer_servers s2 = Inr s3"
    "server_tags s3 = Inr s4"
    "crawl_times s4 = Inr s5"
    "attach cfg st scored d s5 = Inr out"
  using assms unfolding make_site_def and_then_Inr by blast

lemma make_site_fetch_time:
  assumes "make_site cfg st scored all_extra site = Inr out"
  shows "dget ''fetch_time'' out = None"
proof -
  from assms obtain d s4 s5 where c: "crawl_times s4 = Inr s5"
    and a: "attach cfg st scored d s5 = Inr out"
    by (rule make_site_steps)
  from attach_frame [OF a, of "''fetch_time''"] crawl_times_frame(1) [OF c]
  show ?thesis by simp
qed


text \<open>How far a key of the merged record travels through the loop body.\<close>

lemma make_site_upto_crawl:
  assumes "make_site cfg st scored all_extra site = Inr out"
    and "k \<noteq> ''mf2''" "k \<noteq> ''html''" "k \<noteq> ''num_pages''" "k \<noteq> ''tags''"
    and "k \<noteq> ''rel_generators''" "k \<noteq> ''meta_generators''" "k \<noteq> ''servers''"
  obtains d s4 s5 where
    "domain_field ''domain'' site = Inr d"
    "dget k s4 = dget k (merged all_extra d site)"
    "crawl_times s4 = Inr s5"
    "attach cfg st scored d s5 = Inr out"
proof -
  from assms(1) obtain d s1 s2 s3 s4 s5 where
    d: "domain_field ''domain'' site = Inr d" and
    1: "coerce_num_pages (dpop ''html'' (dpop ''mf2'' (merged all_extra d site))) = Inr s1" and
    2: "infer_tags cfg d s1 = Inr s2" and
    3: "infer_servers s2 = Inr s3" and
    4: "server_tags s3 = Inr s4" and
    5: "crawl_times s4 = Inr s5" and
    6: "attach cfg st scored d s5 = Inr out"
    by (rule make_site_steps)
  have "dget k s4 = dget k (merged all_extra d site)"
    using coerce_num_pages_frame [OF 1, of k] infer_tags_frame [OF 2, of k]
      infer_servers_frame [OF 3, of k] server_tags_frame [OF 4, of k] assms(2-)
    by (simp add: dget_dpop)
  from that [OF d this 5 6] show ?thesis .
qed

lemma make_site_frame:
  assumes "make_site cfg st scored all_extra site = Inr out"
    and "domain_field ''domain'' site = Inr d"
    and "k \<notin> set handled_keys"
  shows "dget k out = dget k (merged all_extra d site)"
proof -
  from assms(3) have k: "k \<noteq> ''mf2''" "k \<noteq> ''html''" "k \<noteq> ''num_pages''" "k \<noteq> ''tags''"
    "k \<noteq> ''rel_generators''" "k \<noteq> ''meta_generators''" "k \<noteq> ''servers''"
    "k \<noteq> ''fetch_time''" "k \<noteq> ''crawl_start''" "k \<noteq> ''crawl_end''"
    "k \<noteq> ''hcard''" "k \<noteq> ''links_out''" "k \<noteq> ''links_in''" "k \<noteq> ''links''"
    by (auto simp: handled_keys_def)
  from assms(1) k(1-7) obtain d' s4 s5 where
    d': "domain_field ''domain'' site = Inr d'" and
    e: "dget k s4 = dget k (merged all_extra d' site)" and
    c: "crawl_times s4 = Inr s5" and
    a: "attach cfg st scored d' s5 = Inr out"
    by (rule make_site_upto_crawl)
  from d' assms(2) have "d' = d" by simp
  with e crawl_times_frame(2) [OF c k(8-10)] attach_frame [OF a k(11-14)]
  show ?thesis by simp
qed


lemma make_full_records:
  assumes "make_full cfg sites ls extras = Inr full"
  obtains st scored all_extra doms where
    "load_links ls = Inr st"
    "score_links (links st) = Inr scored"
    "collect_extra extras = Inr all_extra"
    "each (domain_field ''domain'') sites = Inr doms"
    "list_all2 (\<lambda>site out. make_site cfg st scored all_extra site = Inr out)
       (sites @ more_sites (from_domains st) doms) full"
proof -
  from assms obtain st scored all_extra doms where
    a: "load_links ls = Inr st" and b: "score_links (links st) = Inr scored" and
    c: "collect_extra extras = Inr all_extra" and
    d: "each (domain_field ''domain'') sites = Inr doms" and
    e: "each (make_site cfg st scored all_extra)
          (sites @ more_sites (from_domains st) doms) = Inr full"
    unfolding make_full_def and_then_Inr by blast
  from that [OF a b c d each_Inr_all2 [OF e]] show ?thesis .
qed

lemma list_all2_in_set2:
  "list_all2 P xs ys \<Longrightarrow> y \<in> set ys \<Longrightarrow> \<exists>x \<in> set xs. P x y"
  by (induction rule: list_all2_induct) auto

lemma base_site_frame:
  "base_site s = Inr b \<Longrightarrow> k \<noteq> ''links'' \<Longrightarrow> k \<noteq> ''links_truncated'' \<Longrightarrow> dget k b = dget k s"
  by (auto simp: base_site_def dget_dset split: option.splits val.splits if_splits)

lemma make_full_fetch_time:
  assumes "make_full cfg sites ls extras = Inr full" and "r \<in> set full"
  shows "dget ''fetch_time'' r = None"
proof -
  from assms(1) obtain st scored all_extra doms where
    "list_all2 (\<lambda>site out. make_site cfg st scored all_extra site = Inr out)
       (sites @ more_sites (from_domains st) doms) full"
    by (rule make_full_records)
  from list_all2_in_set2 [OF this assms(2)] show ?thesis
    by (auto dest: make_site_fetch_time)
qed

lemma make_base_fetch_time:
  assumes "make_base full = Inr base" and "\<forall>r \<in> set full. dget ''fetch_time'' r = None"
    and "b \<in> set base"
  shows "dget ''fetch_time'' b = None"
proof -
  from assms(1) have "list_all2 (\<lambda>s b. base_site s = Inr b) full base"
    unfolding make_base_def by (rule each_Inr_all2)
  from list_all2_in_set2 [OF this assms(3)] obtain s where "s \<in> set full" "base_site s = Inr b"
    by blast
  with assms(2) base_site_frame [of s b "''fetch_time''"] show ?thesis by simp
qed

lemma make_internal_fetch_time:
  assumes "make_internal full domains = Inr internal"
    and "\<forall>r \<in> set full. dget ''fetch_time'' r = None"
    and "i \<in> set internal"
  shows "dget ''fetch_time'' i = None"
proof -
  from list_all2_in_set2 [OF make_internal_result [OF assms(1)] assms(3)]
  obtain s where "s \<in> set full" "dget ''fetch_time'' i = dget ''fetch_time'' s"
    by auto
  with assms(2) show ?thesis by simp
qed

lemma make_full_frame:
  assumes "make_full cfg sites ls extras = Inr full"
  shows "\<exists>all_extra. collect_extra extras = Inr all_extra \<and>
           list_all2 (\<lambda>site r. \<forall>d k. domain_field ''domain'' site = Inr d \<longrightarrow>
                                 k \<notin> set handled_keys \<longrightarrow>
                                 dget k r = dget k (merged all_extra d site))
             sites (take (length sites) full)"
proof -
  from assms obtain st scored all_extra doms where
    x: "collect_extra extras = Inr all_extra" and
    l: "list_all2 (\<lambda>site out. make_site cfg st scored all_extra site = Inr out)
         (sites @ more_sites (from_domains st) doms) full"
    by (rule make_full_records)
  from l have "list_all2 (\<lambda>site out. make_site cfg st scored all_extra site = Inr out)
         (take (length sites) (sites @ more_sites (from_domains st) doms)) (take (length sites) full)"
    by (rule list_all2_takeI)
  then have "list_all2 (\<lambda>site out. make_site cfg st scored all_extra site = Inr out)
         sites (take (length sites) full)"
    by simp
  then have "list_all2 (\<lambda>site r. \<forall>d k. domain_field ''domain'' site = Inr d \<longrightarrow>
                                 k \<notin> set handled_keys \<longrightarrow>
                                 dget k r = dget k (merged all_extra d site))
             sites (take (length sites) full)"
    by (rule list_all2_mono) (use make_site_frame in blast)
  with x show ?thesis by blast
qed

lemma make_base_frame:
  assumes "make_base full = Inr base"
  shows "list_all2 (\<lambda>r b. \<forall>k. k \<noteq> ''links'' \<longrightarrow> k \<noteq> ''links_truncated'' \<longrightarrow>
                          dget k b = dget k r) full base"
proof -
  from assms have "list_all2 (\<lambda>s b. base_site s = Inr b) full base"
    unfolding make_base_def by (rule each_Inr_all2)
  then show ?thesis
    by (rule list_all2_mono) (use base_site_frame in blast)
qed

lemma make_internal_frame:
  assumes "make_internal full domains = Inr internal"
  shows "list_all2 (\<lambda>r i. \<forall>k. k \<noteq> ''links'' \<longrightarrow> dget k i = dget k r)
           (filter (site_domain_in domains) full) internal"
  by (rule list_all2_mono [OF make_internal_result [OF assms]]) blast

lemma merged_no_extra: "dget d all_extra = None \<Longrightarrow> merged all_extra d site = site"
  by (simp add: merged_def)

lemma make_full_frame_input:
  assumes "make_full cfg sites ls extras = Inr full"
  shows "\<exists>all_extra. collect_extra extras = Inr all_extra \<and>
           list_all2 (\<lambda>site r. \<forall>d k. domain_field ''domain'' site = Inr d \<longrightarrow>
                                 k \<notin> set handled_keys \<longrightarrow>
                                 dget k r = dget k (merged all_extra d site) \<and>
                                 (dget d all_extra = None \<longrightarrow> dget k r = dget k site))
             sites (take (length sites) full)"
proof -
  from make_full_frame [OF assms] obtain all_extra where
    x: "collect_extra extras = Inr all_extra" and
    l: "list_all2 (\<lambda>site r. \<forall>d k. domain_field ''domain'' site = Inr d \<longrightarrow>
                                 k \<notin> set handled_keys \<longrightarrow>
                                 dget k r = dget k (merged all_extra d site))
             sites (take (length sites) full)"
    by blast
  from l have "list_all2 (\<lambda>site r. \<forall>d k. domain_field ''domain'' site = Inr d \<longrightarrow>
                                 k \<notin> set handled_keys \<longrightarrow>
                                 dget k r = dget k (merged all_extra d site) \<and>
                                 (dget d all_extra = None \<longrightarrow> dget k r = dget k site))
             sites (take (length sites) full)"
    by (rule list_all2_mono) (auto simp: merged_no_extra)
  with x show ?thesis by blast
qed

text \<open>
  C10, as the code has it. Whenever \<^verbatim>\<open>make_full\<close> returns, no record of the full view has
  a \<^verbatim>\<open>fetch_time\<close> field, whatever the record's crawl times were, and so neither has any
  record of the base view or of the internal view made from it. Of the other input fields,
  \<^verbatim>\<open>make_full\<close> carries through unchanged exactly those it neither removes nor assigns,
  that is every key outside \<open>handled_keys\<close>: the output record has the key with the value
  of the site record merged with the extra sources, which is the site record's own value
  when no extra record names the domain. A base record has every field of its full record
  except \<^verbatim>\<open>links\<close> and \<^verbatim>\<open>links_truncated\<close> unchanged, and an internal record every field
  except \<^verbatim>\<open>links\<close>.
\<close>

theorem fetch_time_dropped:
  assumes "make_full cfg sites ls extras = Inr full"
  shows "(\<forall>r \<in> set full. dget ''fetch_time'' r = None) \<and>
         (\<forall>base. make_base full = Inr base \<longrightarrow>
            (\<forall>r \<in> set base. dget ''fetch_time'' r = None) \<and>
            list_all2 (\<lambda>r b. \<forall>k. k \<noteq> ''links'' \<longrightarrow> k \<noteq> ''links_truncated'' \<longrightarrow>
                             dget k b = dget k r) full base) \<and>
         (\<forall>internal. make_internal full domains = Inr internal \<longrightarrow>
            (\<forall>r \<in> set internal. dget ''fetch_time'' r = None) \<and>
            list_all2 (\<lambda>r i. \<forall>k. k \<noteq> ''links'' \<longrightarrow> dget k i = dget k r)
              (filter (site_domain_in domains) full) internal) \<and>
         (\<exists>all_extra. collect_extra extras = Inr all_extra \<and>
            list_all2 (\<lambda>site r. \<forall>d k. domain_field ''domain'' site = Inr d \<longrightarrow>
                                  k \<notin> set handled_keys \<longrightarrow>
                                  dget k r = dget k (merged all_extra d site) \<and>
                                  (dget d all_extra = None \<longrightarrow> dget k r = dget k site))
              sites (take (length sites) full))"
proof -
  have full: "\<forall>r \<in> set full. dget ''fetch_time'' r = None"
    using make_full_fetch_time [OF assms] by blast
  have base: "(\<forall>r \<in> set base. dget ''fetch_time'' r = None) \<and>
            list_all2 (\<lambda>r b. \<forall>k. k \<noteq> ''links'' \<longrightarrow> k \<noteq> ''links_truncated'' \<longrightarrow>
                             dget k b = dget k r) full base"
    if "make_base full = Inr base" for base
    using make_base_fetch_time [OF that full] make_base_frame [OF that] by blast
  have internal: "(\<forall>r \<in> set internal. dget ''fetch_time'' r = None) \<and>
            list_all2 (\<lambda>r i. \<forall>k. k \<noteq> ''links'' \<longrightarrow> dget k i = dget k r)
              (filter (site_domain_in domains) full) internal"
    if "make_internal full domains = Inr internal" for internal
    using make_internal_fetch_time [OF that full] make_internal_frame [OF that] by blast
  from full base internal make_full_frame_input [OF assms] show ?thesis by blast
qed

text \<open>
  C10 as stated fails where it says that all other free-form input fields are carried
  through unchanged: \<^verbatim>\<open>html\<close> is dropped and \<^verbatim>\<open>rel_generators\<close> is removed, its content
  going to \<^verbatim>\<open>servers\<close> and \<^verbatim>\<open>tags\<close>; only \<^verbatim>\<open>title\<close> arrives as it was.
\<close>

theorem free_form_counterexample:
  "make_full sample_cfg
     [[(''domain'', VStr ''a.com''), (''html'', VStr ''<p>hello</p>''),
       (''rel_generators'', VList [VStr ''Known https://withknown.com'']),
       (''title'', VStr ''A'')]] [] [] =
   Inr [[(''domain'', VStr ''a.com''), (''title'', VStr ''A''),
         (''tags'', VList [VStr ''Known'']), (''servers'', VList [VStr ''Known'']),
         (''hcard'', VDict []), (''links_out'', VInt 0), (''links_in'', VInt 0),
         (''links'', VDict [])]]"
  by (simp add: run_defs SERVERS_def SERVER_TAGS_def)

lemma convert_start: "convert (VInt 1491004800) = Inr (VStr ''2017-04-01T00:00:00'')"
  by code_simp

lemma convert_end: "convert (VInt 1491091199) = Inr (VStr ''2017-04-01T23:59:59'')"
  by code_simp

lemma make_full_sample: "make_full sample_cfg [sample_site] [] [] = Inr [sample_record]"
  by (simp add: run_defs sample_site_def sample_record_def convert_start convert_end)

theorem fetch_time_dropped_witness:
  "make_base [sample_record] = Inr [sample_record] \<and>
   make_internal [sample_record] {''a.com''} = Inr [sample_record] \<and>
   dget ''fetch_time'' sample_site = Some (VStr ''2017-04-01T12:00:00'') \<and>
   dget ''fetch_time'' sample_record = None \<and>
   ''title'' \<notin> set handled_keys \<and>
   dget ''title'' sample_record = dget ''title'' sample_site"
  using fetch_time_dropped [OF make_full_sample, of "{''a.com''}"]
  by (simp add: sample_record_def sample_site_def make_base_def base_site_def
                MAX_BASE_LINKS_def make_internal_def and_then_def in_domains_def
                internal_site_def handled_keys_def)

text \<open>num_pages\<close>

lemma make_site_num_pages:
  assumes "make_site cfg st scored all_extra site = Inr out"
    and "domain_field ''domain'' site = Inr d"
  shows "case dget ''num_pages'' (merged all_extra d site) of
           None \<Rightarrow> dget ''num_pages'' out = None
         | Some v \<Rightarrow>
             if truthy v then \<exists>n. py_int v = Inr n \<and> dget ''num_pages'' out = Some (VInt n)
             else dget ''num_pages'' out = Some v"
proof -
  from assms(1) obtain d' s1 s2 s3 s4 s5 where
    d: "domain_field ''domain'' site = Inr d'" and
    1: "coerce_num_pages (dpop ''html'' (dpop ''mf2'' (merged all_extra d' site))) = Inr s1" and
    2: "infer_tags cfg d' s1 = Inr s2" and
    3: "infer_servers s2 = Inr s3" and
    4: "server_tags s3 = Inr s4" and
    5: "crawl_times s4 = Inr s5" and
    6: "attach cfg st scored d' s5 = Inr out"
    by (rule make_site_steps)
  from d assms(2) have [simp]: "d' = d" by simp
  have "dget ''num_pages'' out = dget ''num_pages'' s1"
    using infer_tags_frame [OF 2, of "''num_pages''"] infer_servers_frame [OF 3, of "''num_pages''"]
      server_tags_frame [OF 4, of "''num_pages''"] crawl_times_frame(2) [OF 5, of "''num_pages''"]
      attach_frame [OF 6, of "''num_pages''"]
    by simp
  with 1 show ?thesis
    by (auto simp: coerce_num_pages_def dget_dpop dget_dset
             split: option.splits if_splits sum.splits)
qed

lemma make_site_num_pages_raises:
  assumes "domain_field ''domain'' site = Inr d"
    and "dget ''num_pages'' (merged all_extra d site) = Some v"
    and "truthy v" and "py_int v = Inl e"
  shows "make_site cfg st scored all_extra site = Inl e"
  using assms
  by (simp add: make_site_def and_then_def coerce_num_pages_def dget_dpop)


text \<open>hcard\<close>

lemma make_site_hcard:
  assumes "make_site cfg st scored all_extra site = Inr out"
    and "domain_field ''domain'' site = Inr d"
  shows "case dget ''hcard'' (merged all_extra d site) of
           None \<Rightarrow> dget ''hcard'' out = Some (VDict [])
         | Some (VStr s) \<Rightarrow>
             (\<exists>v. cfg_loads cfg s = Inr v \<and>
                  dget ''hcard'' out = Some (if truthy v then v else VDict []))
         | Some _ \<Rightarrow> False"
proof -
  have k: "''hcard'' \<noteq> ''mf2''" "''hcard'' \<noteq> ''html''" "''hcard'' \<noteq> ''num_pages''"
    "''hcard'' \<noteq> ''tags''" "''hcard'' \<noteq> ''rel_generators''" "''hcard'' \<noteq> ''meta_generators''"
    "''hcard'' \<noteq> ''servers''"
    by simp_all
  from assms(1) k obtain d' s4 s5 where
    d: "domain_field ''domain'' site = Inr d'" and
    e: "dget ''hcard'' s4 = dget ''hcard'' (merged all_extra d' site)" and
    c: "crawl_times s4 = Inr s5" and
    a: "attach cfg st scored d' s5 = Inr out"
    by (rule make_site_upto_crawl)
  from d assms(2) have [simp]: "d' = d" by simp
  from crawl_times_frame(2) [OF c, of "''hcard''"] e
  have "dget ''hcard'' s5 = dget ''hcard'' (merged all_extra d site)" by simp
  with a show ?thesis
    by (auto simp: attach_def and_then_Inr hcard_value_def dget_dset
             split: option.splits val.splits sum.splits)
qed

text \<open>crawl times\<close>

lemma make_site_crawl_times:
  assumes "make_site cfg st scored all_extra site = Inr out"
    and "domain_field ''domain'' site = Inr d"
  shows "crawl_times_spec (merged all_extra d site) out"
proof -
  let ?m = "merged all_extra d site"
  from assms(1) obtain d' s1 s2 s3 s4 s5 where
    d: "domain_field ''domain'' site = Inr d'" and
    1: "coerce_num_pages (dpop ''html'' (dpop ''mf2'' (merged all_extra d' site))) = Inr s1" and
    2: "infer_tags cfg d' s1 = Inr s2" and
    3: "infer_servers s2 = Inr s3" and
    4: "server_tags s3 = Inr s4" and
    5: "crawl_times s4 = Inr s5" and
    6: "attach cfg st scored d' s5 = Inr out"
    by (rule make_site_steps)
  from d assms(2) have [simp]: "d' = d" by simp
  have pre: "dget k s4 = dget k ?m"
    if "k \<in> {''fetch_time'', ''crawl_start'', ''crawl_end''}" for k
    using coerce_num_pages_frame [OF 1, of k] infer_tags_frame [OF 2, of k]
      infer_servers_frame [OF 3, of k] server_tags_frame [OF 4, of k] that
    by (auto simp: dget_dpop)
  have post: "dget k out = dget k s5"
    if "k \<in> {''crawl_start'', ''crawl_end''}" for k
    using attach_frame [OF 6, of k] that by auto
  from 5 pre [of "''fetch_time''"] pre [of "''crawl_start''"] pre [of "''crawl_end''"]
    post [of "''crawl_start''"] post [of "''crawl_end''"]
  show ?thesis
    unfolding crawl_times_spec_def crawl_times_def Let_def both_crawl_times_def iso_time_of_def
    by (auto simp: and_then_Inr dget_dset dget_dpop convert_def use_fetch_def
             split: option.splits if_splits sum.splits)
qed

lemma list_all2_in_set1:
  "list_all2 P xs ys \<Longrightarrow> x \<in> set xs \<Longrightarrow> \<exists>y \<in> set ys. P x y"
  by (induction rule: list_all2_induct) auto

text \<open>The records made from the site records are the first records of the full view.\<close>

lemma make_full_sites:
  assumes "make_full cfg sites ls extras = Inr full"
  obtains st scored all_extra where
    "collect_extra extras = Inr all_extra"
    "list_all2 (\<lambda>site out. make_site cfg st scored all_extra site = Inr out)
       sites (take (length sites) full)"
proof -
  from assms obtain st scored all_extra doms where
    x: "collect_extra extras = Inr all_extra" and
    l: "list_all2 (\<lambda>site out. make_site cfg st scored all_extra site = Inr out)
         (sites @ more_sites (from_domains st) doms) full"
    by (rule make_full_records)
  from list_all2_takeI [OF l, of "length sites"]
  have "list_all2 (\<lambda>site out. make_site cfg st scored all_extra site = Inr out)
         sites (take (length sites) full)"
    by simp
  from that [OF x this] show ?thesis .
qed

lemma make_site_domain_field:
  "make_site cfg st scored all_extra site = Inr out \<Longrightarrow> \<exists>d. domain_field ''domain'' site = Inr d"
  by (erule make_site_steps) blast

lemma make_full_lift:
  assumes "make_full cfg sites ls extras = Inr full"
    and "\<And>st scored all_extra site out d.
           make_site cfg st scored all_extra site = Inr out \<Longrightarrow>
           domain_field ''domain'' site = Inr d \<Longrightarrow> P (merged all_extra d site) out"
  shows "\<exists>all_extra. collect_extra extras = Inr all_extra \<and>
           list_all2 (\<lambda>site out. \<exists>d. domain_field ''domain'' site = Inr d \<and>
                                     P (merged all_extra d site) out)
             sites (take (length sites) full)"
proof -
  from assms(1) obtain st scored all_extra where
    x: "collect_extra extras = Inr all_extra" and
    l: "list_all2 (\<lambda>site out. make_site cfg st scored all_extra site = Inr out)
         sites (take (length sites) full)"
    by (rule make_full_sites)
  from l have "list_all2 (\<lambda>site out. \<exists>d. domain_field ''domain'' site = Inr d \<and>
                                     P (merged all_extra d site) out)
             sites (take (length sites) full)"
    by (rule list_all2_mono) (use assms(2) make_site_domain_field in blast)
  with x show ?thesis by blast
qed

lemma make_site_num_pages_spec:
  "make_site cfg st scored all_extra site = Inr out \<Longrightarrow> domain_field ''domain'' site = Inr d \<Longrightarrow>
   num_pages_spec (merged all_extra d site) out"
  unfolding num_pages_spec_def by (rule make_site_num_pages)

lemma make_site_hcard_spec:
  "make_site cfg st scored all_extra site = Inr out \<Longrightarrow> domain_field ''domain'' site = Inr d \<Longrightarrow>
   hcard_spec cfg (merged all_extra d site) out"
  unfolding hcard_spec_def by (rule make_site_hcard)

lemma make_full_cases:
  "(\<exists>full. make_full cfg sites ls extras = Inr full) \<or> (\<exists>e. make_full cfg sites ls extras = Inl e)"
  by (cases "make_full cfg sites ls extras") auto

text \<open>
  C9, as the code has it. Whenever \<^verbatim>\<open>make_full\<close> returns, for every site record: a
  \<^verbatim>\<open>num_pages\<close> that is there and true (not \<^verbatim>\<open>None\<close>, \<open>0\<close>, \<^verbatim>\<open>False\<close> or empty) has been
  converted by \<^verbatim>\<open>int\<close> and the output holds that integer; a \<^verbatim>\<open>num_pages\<close> that is false is in
  the output as it was; a record without the key has none in the output. And when a site
  record's \<^verbatim>\<open>num_pages\<close> is true but \<^verbatim>\<open>int\<close> raises on it (\<^verbatim>\<open>ValueError\<close> on a string that
  is not a number, \<^verbatim>\<open>TypeError\<close> on a list or an object), \<^verbatim>\<open>make_full\<close> does not return a
  view: the exception is not caught.
\<close>

theorem num_pages_coerced:
  "(\<forall>full. make_full cfg sites ls extras = Inr full \<longrightarrow>
      (\<exists>all_extra. collect_extra extras = Inr all_extra \<and>
         list_all2 (\<lambda>site out. \<exists>d. domain_field ''domain'' site = Inr d \<and>
                                   num_pages_spec (merged all_extra d site) out)
           sites (take (length sites) full))) \<and>
   (\<forall>all_extra site d v e.
      collect_extra extras = Inr all_extra \<longrightarrow> site \<in> set sites \<longrightarrow>
      domain_field ''domain'' site = Inr d \<longrightarrow>
      dget ''num_pages'' (merged all_extra d site) = Some v \<longrightarrow> truthy v \<longrightarrow>
      py_int v = Inl e \<longrightarrow> e \<noteq> Unmodelled \<longrightarrow>
      (\<exists>e'. make_full cfg sites ls extras = Inl e'))"
proof (intro conjI allI impI)
  fix full
  assume "make_full cfg sites ls extras = Inr full"
  then show "\<exists>all_extra. collect_extra extras = Inr all_extra \<and>
         list_all2 (\<lambda>site out. \<exists>d. domain_field ''domain'' site = Inr d \<and>
                                   num_pages_spec (merged all_extra d site) out)
           sites (take (length sites) full)"
    by (rule make_full_lift) (rule make_site_num_pages_spec)
next
  fix all_extra site d v e
  assume x: "collect_extra extras = Inr all_extra" and s: "site \<in> set sites"
    and d: "domain_field ''domain'' site = Inr d"
    and v: "dget ''num_pages'' (merged all_extra d site) = Some v" "truthy v" "py_int v = Inl e"
    and "e \<noteq> Unmodelled"
  show "\<exists>e'. make_full cfg sites ls extras = Inl e'"
  proof (rule ccontr)
    assume "\<not> ?thesis"
    with make_full_cases [of cfg sites ls extras] obtain full
      where "make_full cfg sites ls extras = Inr full" by blast
    then obtain st scored all_extra' where
      x': "collect_extra extras = Inr all_extra'" and
      l: "list_all2 (\<lambda>site out. make_site cfg st scored all_extra' site = Inr out)
           sites (take (length sites) full)"
      by (rule make_full_sites)
    from x x' have "all_extra' = all_extra" by simp
    with list_all2_in_set1 [OF l s] obtain out
      where "make_site cfg st scored all_extra site = Inr out" by blast
    with make_site_num_pages_raises [OF d v, of cfg st scored] show False by simp
  qed
qed

text \<open>
  The string conversion at a few inputs: surrounding ASCII whitespace and a sign are
  accepted, the separator characters \<^verbatim>\<open>\x1c\<close> to \<^verbatim>\<open>\x1f\<close> are not whitespace for \<^verbatim>\<open>int\<close>, and
  underscores and characters beyond ASCII are outside the model.
\<close>

lemma int_of_string_examples:
  "int_of_string ('' -0012'' @ [CHR 0x0A]) = Inr (- 12)"
  "int_of_string (''12'' @ [CHR 0x1C]) = Inl ValueError"
  "int_of_string ([CHR 0x1F] @ ''12'') = Inl ValueError"
  "int_of_string ''+ 7'' = Inl ValueError"
  "int_of_string [] = Inl ValueError"
  "int_of_string ''1_000'' = Inl Unmodelled"
  "int_of_string ([CHR 0xA0] @ ''12'') = Inl Unmodelled"
  by code_simp+

lemma int_of_string_12: "int_of_string ''12'' = Inr 12"
  by code_simp

lemma int_of_string_abc: "int_of_string ''abc'' = Inl ValueError"
  by code_simp

lemma make_full_num_pages:
  "make_full sample_cfg [[(''domain'', VStr ''a.com''), (''num_pages'', VStr ''12'')]] [] [] =
     Inr [[(''domain'', VStr ''a.com''), (''num_pages'', VInt 12), (''tags'', VList []),
           (''hcard'', VDict []), (''links_out'', VInt 0), (''links_in'', VInt 0),
           (''links'', VDict [])]]"
  by (simp add: run_defs int_of_string_12)

theorem num_pages_coerced_witness:
  "num_pages_spec [(''domain'', VStr ''a.com''), (''num_pages'', VStr ''12'')]
     [(''domain'', VStr ''a.com''), (''num_pages'', VInt 12), (''tags'', VList []),
      (''hcard'', VDict []), (''links_out'', VInt 0), (''links_in'', VInt 0),
      (''links'', VDict [])] \<and>
   py_int (VStr ''abc'') = Inl ValueError \<and>
   (\<exists>e'. make_full sample_cfg [[(''domain'', VStr ''a.com''), (''num_pages'', VStr ''abc'')]]
           [] [] = Inl e')"
proof -
  have a: "collect_extra [] = Inr []"
    by (simp add: collect_extra_def)
  have d: "domain_field ''domain'' [(''domain'', VStr ''a.com''), (''num_pages'', v)] = Inr ''a.com''"
    for v by (simp add: domain_field_def)
  have p: "py_int (VStr ''abc'') = Inl ValueError"
    by (simp add: int_of_string_abc)
  from num_pages_coerced [of sample_cfg
      "[[(''domain'', VStr ''a.com''), (''num_pages'', VStr ''12'')]]" "[]" "[]"]
    make_full_num_pages
  have 1: "num_pages_spec [(''domain'', VStr ''a.com''), (''num_pages'', VStr ''12'')]
     [(''domain'', VStr ''a.com''), (''num_pages'', VInt 12), (''tags'', VList []),
      (''hcard'', VDict []), (''links_out'', VInt 0), (''links_in'', VInt 0),
      (''links'', VDict [])]"
    by (simp add: a d merged_def)
  from num_pages_coerced [of sample_cfg
      "[[(''domain'', VStr ''a.com''), (''num_pages'', VStr ''abc'')]]" "[]" "[]"] a d p
  have 2: "\<exists>e'. make_full sample_cfg
             [[(''domain'', VStr ''a.com''), (''num_pages'', VStr ''abc'')]] [] [] = Inl e'"
    by (simp add: merged_def)
  from 1 p 2 show ?thesis by blast
qed

text \<open>
  C9 as stated fails in its second half: an unparsable \<^verbatim>\<open>num_pages\<close> is not passed through,
  \<^verbatim>\<open>int('abc')\<close> raises \<^verbatim>\<open>ValueError\<close> and the run aborts.
\<close>

theorem num_pages_counterexample:
  "make_full sample_cfg [[(''domain'', VStr ''a.com''), (''num_pages'', VStr ''abc'')]] [] [] =
     Inl ValueError"
  by (simp add: run_defs int_of_string_abc)

text \<open>
  C8, as the code has it. Whenever \<^verbatim>\<open>make_full\<close> returns, for every site record: without
  an \<^verbatim>\<open>hcard\<close> the output's \<^verbatim>\<open>hcard\<close> is the empty object; otherwise the \<^verbatim>\<open>hcard\<close> is a
  string that the parser accepted, and the output's \<^verbatim>\<open>hcard\<close> is the parsed value, or the
  empty object when the parsed value is false (\<^verbatim>\<open>null\<close>, \<open>0\<close>, an empty string, list or
  object). And when a site record's \<^verbatim>\<open>hcard\<close> is a string on which the parser raises,
  \<^verbatim>\<open>make_full\<close> does not return a view: the exception is not caught.
\<close>

theorem hcard_parsed:
  "(\<forall>full. make_full cfg sites ls extras = Inr full \<longrightarrow>
      (\<exists>all_extra. collect_extra extras = Inr all_extra \<and>
         list_all2 (\<lambda>site out. \<exists>d. domain_field ''domain'' site = Inr d \<and>
                                   hcard_spec cfg (merged all_extra d site) out)
           sites (take (length sites) full))) \<and>
   (\<forall>all_extra site d s e.
      collect_extra extras = Inr all_extra \<longrightarrow> site \<in> set sites \<longrightarrow>
      domain_field ''domain'' site = Inr d \<longrightarrow>
      dget ''hcard'' (merged all_extra d site) = Some (VStr s) \<longrightarrow>
      cfg_loads cfg s = Inl e \<longrightarrow>
      (\<exists>e'. make_full cfg sites ls extras = Inl e'))"
proof (intro conjI allI impI)
  fix full
  assume "make_full cfg sites ls extras = Inr full"
  then show "\<exists>all_extra. collect_extra extras = Inr all_extra \<and>
         list_all2 (\<lambda>site out. \<exists>d. domain_field ''domain'' site = Inr d \<and>
                                   hcard_spec cfg (merged all_extra d site) out)
           sites (take (length sites) full)"
    by (rule make_full_lift) (rule make_site_hcard_spec)
next
  fix all_extra site d s e
  assume x: "collect_extra extras = Inr all_extra" and s: "site \<in> set sites"
    and d: "domain_field ''domain'' site = Inr d"
    and h: "dget ''hcard'' (merged all_extra d site) = Some (VStr s)" "cfg_loads cfg s = Inl e"
  show "\<exists>e'. make_full cfg sites ls extras = Inl e'"
  proof (rule ccontr)
    assume "\<not> ?thesis"
    with make_full_cases [of cfg sites ls extras] obtain full
      where "make_full cfg sites ls extras = Inr full" by blast
    then obtain st scored all_extra' where
      x': "collect_extra extras = Inr all_extra'" and
      l: "list_all2 (\<lambda>site out. make_site cfg st scored all_extra' site = Inr out)
           sites (take (length sites) full)"
      by (rule make_full_sites)
    from x x' have "all_extra' = all_extra" by simp
    with list_all2_in_set1 [OF l s] obtain out
      where "make_site cfg st scored all_extra site = Inr out" by blast
    from make_site_hcard_spec [OF this d] h show False
      by (simp add: hcard_spec_def)
  qed
qed

lemma make_full_hcard:
  "make_full sample_cfg
     [[(''domain'', VStr ''a.com''), (''hcard'', VStr ''[1, 2]'')],
      [(''domain'', VStr ''b.com''), (''hcard'', VStr ''null'')],
      [(''domain'', VStr ''c.com'')]] [] [] =
     Inr [[(''domain'', VStr ''a.com''), (''hcard'', VList [VInt 1, VInt 2]), (''tags'', VList []),
           (''links_out'', VInt 0), (''links_in'', VInt 0), (''links'', VDict [])],
          [(''domain'', VStr ''b.com''), (''hcard'', VDict []), (''tags'', VList []),
           (''links_out'', VInt 0), (''links_in'', VInt 0), (''links'', VDict [])],
          [(''domain'', VStr ''c.com''), (''tags'', VList []), (''hcard'', VDict []),
           (''links_out'', VInt 0), (''links_in'', VInt 0), (''links'', VDict [])]]"
  by (simp add: run_defs)

theorem hcard_parsed_witness:
  "hcard_spec sample_cfg [(''domain'', VStr ''a.com''), (''hcard'', VStr ''[1, 2]'')]
     [(''domain'', VStr ''a.com''), (''hcard'', VList [VInt 1, VInt 2]), (''tags'', VList []),
      (''links_out'', VInt 0), (''links_in'', VInt 0), (''links'', VDict [])] \<and>
   hcard_spec sample_cfg [(''domain'', VStr ''b.com''), (''hcard'', VStr ''null'')]
     [(''domain'', VStr ''b.com''), (''hcard'', VDict []), (''tags'', VList []),
      (''links_out'', VInt 0), (''links_in'', VInt 0), (''links'', VDict [])] \<and>
   hcard_spec sample_cfg [(''domain'', VStr ''c.com'')]
     [(''domain'', VStr ''c.com''), (''tags'', VList []), (''hcard'', VDict []),
      (''links_out'', VInt 0), (''links_in'', VInt 0), (''links'', VDict [])] \<and>
   cfg_loads sample_cfg ''{'' = Inl JSONDecodeError \<and>
   (\<exists>e'. make_full sample_cfg [[(''domain'', VStr ''a.com''), (''hcard'', VStr ''{'')]]
           [] [] = Inl e')"
proof -
  have a: "collect_extra [] = Inr []"
    by (simp add: collect_extra_def)
  have p: "cfg_loads sample_cfg ''{'' = Inl JSONDecodeError"
    by (simp add: sample_cfg_def sample_loads_def)
  from hcard_parsed [of sample_cfg
      "[[(''domain'', VStr ''a.com''), (''hcard'', VStr ''[1, 2]'')],
        [(''domain'', VStr ''b.com''), (''hcard'', VStr ''null'')],
        [(''domain'', VStr ''c.com'')]]" "[]" "[]"]
    make_full_hcard
  have 1: "hcard_spec sample_cfg [(''domain'', VStr ''a.com''), (''hcard'', VStr ''[1, 2]'')]
     [(''domain'', VStr ''a.com''), (''hcard'', VList [VInt 1, VInt 2]), (''tags'', VList []),
      (''links_out'', VInt 0), (''links_in'', VInt 0), (''links'', VDict [])] \<and>
   hcard_spec sample_cfg [(''domain'', VStr ''b.com''), (''hcard'', VStr ''null'')]
     [(''domain'', VStr ''b.com''), (''hcard'', VDict []), (''tags'', VList []),
      (''links_out'', VInt 0), (''links_in'', VInt 0), (''links'', VDict [])] \<and>
   hcard_spec sample_cfg [(''domain'', VStr ''c.com'')]
     [(''domain'', VStr ''c.com''), (''tags'', VList []), (''hcard'', VDict []),
      (''links_out'', VInt 0), (''links_in'', VInt 0), (''links'', VDict [])]"
    by (simp add: a domain_field_def merged_def)
  from hcard_parsed [of sample_cfg
      "[[(''domain'', VStr ''a.com''), (''hcard'', VStr ''{'')]]" "[]" "[]"] a p
  have 2: "\<exists>e'. make_full sample_cfg
             [[(''domain'', VStr ''a.com''), (''hcard'', VStr ''{'')]] [] [] = Inl e'"
    by (simp add: merged_def domain_field_def)
  from 1 p 2 show ?thesis by blast
qed

text \<open>
  C8 as stated fails on a malformed \<^verbatim>\<open>hcard\<close>: the unterminated \<^verbatim>\<open>{\<close> makes \<^verbatim>\<open>json.loads\<close>
  raise, there is no handler, and the run aborts instead of continuing with an empty object.
\<close>

theorem hcard_counterexample:
  "make_full sample_cfg [[(''domain'', VStr ''a.com''), (''hcard'', VStr ''{'')]] [] [] =
     Inl JSONDecodeError"
  by (simp add: run_defs)

text \<open>
  C7, as the code has it. Whenever \<^verbatim>\<open>make_full\<close> returns, for every site record: when
  \<^verbatim>\<open>crawl_start\<close> and \<^verbatim>\<open>crawl_end\<close> are both present and true (for an integer: not zero),
  each is, in the output, the ISO-8601 UTC time \<^verbatim>\<open>YYYY-MM-DDTHH:MM:SS\<close> of its integer
  value; otherwise, when \<^verbatim>\<open>fetch_time\<close> is present and true, its value is the output's
  \<^verbatim>\<open>crawl_start\<close> and \<^verbatim>\<open>crawl_end\<close>; otherwise the two fields are in the output as they
  are in the input: absent when absent, and unconverted when only one of them is there.
\<close>

theorem crawl_times_normalized:
  "make_full cfg sites ls extras = Inr full \<Longrightarrow>
   \<exists>all_extra. collect_extra extras = Inr all_extra \<and>
     list_all2 (\<lambda>site out. \<exists>d. domain_field ''domain'' site = Inr d \<and>
                               crawl_times_spec (merged all_extra d site) out)
       sites (take (length sites) full)"
  by (erule make_full_lift) (rule make_site_crawl_times)

lemma make_full_crawl_times:
  "make_full sample_cfg
     [sample_site,
      [(''domain'', VStr ''b.com''), (''fetch_time'', VStr ''2017-04-01T12:00:00'')],
      [(''domain'', VStr ''c.com'')]] [] [] =
   Inr [sample_record,
        [(''domain'', VStr ''b.com''), (''tags'', VList []),
         (''crawl_start'', VStr ''2017-04-01T12:00:00''),
         (''crawl_end'', VStr ''2017-04-01T12:00:00''), (''hcard'', VDict []),
         (''links_out'', VInt 0), (''links_in'', VInt 0), (''links'', VDict [])],
        [(''domain'', VStr ''c.com''), (''tags'', VList []), (''hcard'', VDict []),
         (''links_out'', VInt 0), (''links_in'', VInt 0), (''links'', VDict [])]]"
  by (simp add: run_defs sample_site_def sample_record_def convert_start convert_end)

theorem crawl_times_normalized_witness:
  "both_crawl_times sample_site \<and>
   crawl_times_spec sample_site sample_record \<and>
   crawl_times_spec
     [(''domain'', VStr ''b.com''), (''fetch_time'', VStr ''2017-04-01T12:00:00'')]
     [(''domain'', VStr ''b.com''), (''tags'', VList []),
      (''crawl_start'', VStr ''2017-04-01T12:00:00''),
      (''crawl_end'', VStr ''2017-04-01T12:00:00''), (''hcard'', VDict []),
      (''links_out'', VInt 0), (''links_in'', VInt 0), (''links'', VDict [])] \<and>
   crawl_times_spec [(''domain'', VStr ''c.com'')]
     [(''domain'', VStr ''c.com''), (''tags'', VList []), (''hcard'', VDict []),
      (''links_out'', VInt 0), (''links_in'', VInt 0), (''links'', VDict [])]"
proof -
  have a: "collect_extra [] = Inr []"
    by (simp add: collect_extra_def)
  have b: "both_crawl_times sample_site"
    by (simp add: both_crawl_times_def sample_site_def)
  from crawl_times_normalized [OF make_full_crawl_times] b show ?thesis
    by (simp add: a domain_field_def merged_def sample_site_def)
qed

text \<open>
  C7 as stated fails in its last case: a record that has a \<^verbatim>\<open>crawl_start\<close> but neither a
  \<^verbatim>\<open>crawl_end\<close> nor a \<^verbatim>\<open>fetch_time\<close> keeps its \<^verbatim>\<open>crawl_start\<close>, as the integer it was; the
  field is not absent from the output.
\<close>

theorem crawl_times_counterexample:
  "make_full sample_cfg [[(''domain'', VStr ''a.com''), (''crawl_start'', VInt 1491004800)]] [] [] =
     Inr [[(''domain'', VStr ''a.com''), (''crawl_start'', VInt 1491004800),
           (''tags'', VList []), (''hcard'', VDict []), (''links_out'', VInt 0),
           (''links_in'', VInt 0), (''links'', VDict [])]]"
  by (simp add: run_defs)

section \<open>Order of the links\<close>

lemma load_from_fold:
  "load_from st ls = Inr st' \<longleftrightarrow> (\<exists>evs. each read_link ls = Inr evs \<and> st' = fold add_event evs st)"
proof (induction ls arbitrary: st)
  case Nil
  then show ?case by auto
next
  case (Cons l ls)
  show ?case
  proof (cases "read_link l")
    case (Inl e)
    then show ?thesis by simp
  next
    case (Inr ev)
    show ?thesis
      by (simp add: Inr Cons.IH) (auto split: sum.splits)
  qed
qed

lemma keys_dmodify:
  "map fst (dmodify k z f d) = note_key k (map fst d)"
  by (induction d) (force simp: note_key_def)+

lemma edges_bump_edge:
  "map fst (edges (bump_edge a b dir m n g) d) =
     (if d = a then note_key b (map fst (edges g d)) else map fst (edges g d))"
  by (auto simp: edges_def bump_edge_def dget_dmodify keys_dmodify note_key_def
           split: option.splits)

lemma edges_add_event:
  "map fst (edges (links (add_event ev st)) d) =
     fold note_key (observed d ev) (map fst (edges (links st) d))"
  by (simp add: add_event_def edges_bump_edge observed_def)

lemma edges_fold_add_event:
  "map fst (edges (links (fold add_event evs st)) d) =
     fold note_key (concat (map (observed d) evs)) (map fst (edges (links st) d))"
  by (induction evs arbitrary: st) (simp_all add: edges_add_event)

lemma load_links_first_seen:
  assumes "load_links ls = Inr st"
  obtains evs where "each read_link ls = Inr evs"
    and "\<And>d. map fst (edges (links st) d) = first_seen d evs"
proof -
  from assms obtain evs where e: "each read_link ls = Inr evs"
    and s: "st = fold add_event evs empty_state"
    unfolding load_links_def load_from_fold by blast
  have "map fst (edges (links st) d) = first_seen d evs" for d
    unfolding s edges_fold_add_event first_seen_def
    by (simp add: empty_state_def edges_def)
  with e show ?thesis by (rule that)
qed

lemma distinct_note_key: "distinct seen \<Longrightarrow> distinct (note_key x seen)"
  by (simp add: note_key_def)

lemma distinct_fold_note_key: "distinct seen \<Longrightarrow> distinct (fold note_key xs seen)"
  by (induction xs arbitrary: seen) (simp_all add: distinct_note_key)

lemma distinct_first_seen: "distinct (first_seen d evs)"
  by (simp add: first_seen_def distinct_fold_note_key)

lemma raw_scores_keys: "raw_scores es = Inr rs \<Longrightarrow> map fst rs = map fst es"
  by (induction es arbitrary: rs) (auto split: sum.splits)

lemma score_domain_keys: "score_domain es = Inr sd \<Longrightarrow> map fst sd = map fst es"
  by (drule score_domain_result) (auto simp: raw_scores_keys [symmetric] split: prod.splits)

lemma score_links_edges:
  "score_links g = Inr sg \<Longrightarrow> map fst (edges sg d) = map fst (edges g d)"
proof (induction g arbitrary: sg)
  case Nil
  then show ?case by (simp add: edges_def)
next
  case (Cons a g)
  obtain d' es where a: "a = (d', es)" by (cases a)
  from Cons.prems obtain sd sg' where sd: "score_domain es = Inr sd"
    and sg': "score_links g = Inr sg'" and sg: "sg = (d', sd) # sg'"
    by (auto simp: a split: sum.splits)
  from Cons.IH [OF sg'] score_domain_keys [OF sd] show ?case
    by (simp add: a sg edges_def)
qed

text \<open>A stable sort of a list that is in order of \<open>p\<close> is in lexicographic order of key and \<open>p\<close>.\<close>

lemma sorted_wrt_insort_key:
  fixes f :: "'a \<Rightarrow> 'k::linorder" and p :: "'a \<Rightarrow> nat"
  assumes "sorted_wrt (\<lambda>a b. f a < f b \<or> (f a = f b \<and> p a < p b)) ys"
    and "\<forall>y \<in> set ys. p x < p y"
  shows "sorted_wrt (\<lambda>a b. f a < f b \<or> (f a = f b \<and> p a < p b)) (insort_key f x ys)"
  using assms
proof (induction ys)
  case Nil
  then show ?case by simp
next
  case (Cons y ys)
  show ?case
  proof (cases "f x \<le> f y")
    case True
    with Cons.prems show ?thesis by (auto simp: less_le)
  next
    case False
    with Cons show ?thesis by (auto simp: set_insort_key)
  qed
qed

lemma sorted_wrt_sort_key:
  fixes f :: "'a \<Rightarrow> 'k::linorder" and p :: "'a \<Rightarrow> nat"
  assumes "sorted_wrt (\<lambda>a b. p a < p b) xs"
  shows "sorted_wrt (\<lambda>a b. f a < f b \<or> (f a = f b \<and> p a < p b)) (sort_key f xs)"
  using assms
proof (induction xs)
  case Nil
  then show ?case by simp
next
  case (Cons x xs)
  then have "sorted_wrt (\<lambda>a b. f a < f b \<or> (f a = f b \<and> p a < p b)) (sort_key f xs)"
    and "\<forall>y \<in> set (sort_key f xs). p x < p y"
    by auto
  then have "sorted_wrt (\<lambda>a b. f a < f b \<or> (f a = f b \<and> p a < p b))
               (insort_key f x (sort_key f xs))"
    by (rule sorted_wrt_insort_key)
  then show ?case by (simp add: sort_key_def)
qed

lemma index_of_less:
  "distinct (x # xs) \<Longrightarrow> y \<in> set xs \<Longrightarrow> index_of x (x # xs) < index_of y (x # xs)"
  by auto

lemma sorted_wrt_index_of: "distinct xs \<Longrightarrow> sorted_wrt (\<lambda>a b. index_of a xs < index_of b xs) xs"
proof (induction xs)
  case Nil
  then show ?case by simp
next
  case (Cons x xs)
  then have "sorted_wrt (\<lambda>a b. index_of a xs < index_of b xs) xs" by simp
  then have "sorted_wrt (\<lambda>a b. index_of a (x # xs) < index_of b (x # xs)) xs"
    by (rule sorted_wrt_mono_rel [rotated]) (use Cons.prems in auto)
  with Cons.prems show ?case by auto
qed

lemma score_of_stats_val: "score_of (stats_val s) = num_val (st_score s)"
proof -
  have "dget ''score'' (map (\<lambda>(dir, cs). (direction_key dir, f cs)) bk @ [(''score'', v)]) = Some v"
    for f :: "counts \<Rightarrow> val" and bk v
  proof (induction bk)
    case Nil
    then show ?case by simp
  next
    case (Cons a bk)
    obtain dir cs where "a = (dir, cs)" by (cases a)
    with Cons show ?case by (cases dir) simp_all
  qed
  then show ?thesis by (simp add: score_of_def stats_val_def)
qed

lemma sorted_links_ordered:
  assumes "map fst (edges scored d) = first_seen d evs"
  shows "ordered_links d evs (map (\<lambda>(t, s). (t, stats_val s)) (sorted_links scored d))"
proof -
  let ?fs = "first_seen d evs"
  let ?f = "\<lambda>item :: string \<times> stats. - num_val (st_score (snd item))"
  let ?p = "\<lambda>item :: string \<times> stats. index_of (fst item) ?fs"
  have "sorted_wrt (\<lambda>a b. index_of a ?fs < index_of b ?fs) (map fst (edges scored d))"
    unfolding assms by (rule sorted_wrt_index_of) (rule distinct_first_seen)
  then have "sorted_wrt (\<lambda>a b. ?p a < ?p b) (edges scored d)"
    by (simp add: sorted_wrt_map)
  then have "sorted_wrt (\<lambda>a b. ?f a < ?f b \<or> (?f a = ?f b \<and> ?p a < ?p b))
               (sort_key ?f (edges scored d))"
    by (rule sorted_wrt_sort_key)
  then have "sorted_wrt (\<lambda>a b. ?f a < ?f b \<or> (?f a = ?f b \<and> ?p a < ?p b))
               (sorted_links scored d)"
    by (simp add: sorted_links_def edges_def)
  then show ?thesis
    unfolding ordered_links_def sorted_wrt_map
    by (rule sorted_wrt_mono_rel [rotated])
       (auto simp: comes_before_def score_of_stats_val split: prod.splits)
qed

lemma make_site_links:
  assumes "make_site cfg st scored all_extra site = Inr out"
    and "domain_field ''domain'' site = Inr d"
  shows "links_of out = map (\<lambda>(t, s). (t, stats_val s)) (sorted_links scored d)"
proof -
  from assms(1) obtain d' s5 where d: "domain_field ''domain'' site = Inr d'"
    and a: "attach cfg st scored d' s5 = Inr out"
    by (rule make_site_steps)
  from d assms(2) have "d' = d" by simp
  with a show ?thesis
    by (auto simp: attach_def and_then_Inr links_of_def dget_dset)
qed

lemma base_site_links: "base_site r = Inr b \<Longrightarrow> links_of b = take MAX_BASE_LINKS (links_of r)"
  by (auto simp: base_site_def links_of_def dget_dset split: option.splits val.splits if_splits)

lemma internal_site_links:
  "internal_site domains r = Inr i \<Longrightarrow> links_of i = filter (\<lambda>(d, v). d \<in> domains) (links_of r)"
  by (drule internal_site_result) (simp add: links_of_def)

lemma ordered_links_take: "ordered_links d evs ls \<Longrightarrow> ordered_links d evs (take n ls)"
  unfolding ordered_links_def by (rule sorted_wrt_take)

lemma ordered_links_filter: "ordered_links d evs ls \<Longrightarrow> ordered_links d evs (filter P ls)"
  unfolding ordered_links_def by (rule sorted_wrt_filter)

lemma make_full_in_order:
  assumes "make_full cfg sites ls extras = Inr full"
  obtains st evs site_domains where
    "load_links ls = Inr st" "each read_link ls = Inr evs"
    "each (domain_field ''domain'') sites = Inr site_domains"
    "list_all2 (in_order evs) (sites @ more_sites (from_domains st) site_domains) full"
proof -
  from assms obtain st scored all_extra doms where
    st: "load_links ls = Inr st" and sc: "score_links (links st) = Inr scored" and
    doms: "each (domain_field ''domain'') sites = Inr doms" and
    l: "list_all2 (\<lambda>site out. make_site cfg st scored all_extra site = Inr out)
         (sites @ more_sites (from_domains st) doms) full"
    by (rule make_full_records)
  obtain evs where evs: "each read_link ls = Inr evs"
    and keys: "\<forall>d. map fst (edges (links st) d) = first_seen d evs"
    by (rule load_links_first_seen [OF st]) auto
  have k: "map fst (edges scored d) = first_seen d evs" for d
    using score_links_edges [OF sc, of d] keys by simp
  have "in_order evs site out" if "make_site cfg st scored all_extra site = Inr out" for site out
  proof -
    from make_site_domain_field [OF that] obtain d
      where d: "domain_field ''domain'' site = Inr d" by blast
    from make_site_links [OF that d] sorted_links_ordered [OF k, of d] d
    show ?thesis by (auto simp: in_order_def)
  qed
  with l have "list_all2 (in_order evs) (sites @ more_sites (from_domains st) doms) full"
    by (rule list_all2_mono)
  from that [OF st evs doms this] show ?thesis .
qed

lemma in_order_base:
  assumes "list_all2 (in_order evs) inputs full" and "make_base full = Inr base"
  shows "list_all2 (in_order evs) inputs base"
proof -
  from assms(2) have b: "list_all2 (\<lambda>r b. base_site r = Inr b) full base"
    unfolding make_base_def by (rule each_Inr_all2)
  have "list_all2 (\<lambda>site b. \<exists>r. in_order evs site r \<and> base_site r = Inr b) inputs base"
    using list_all2_trans [of "in_order evs" "\<lambda>r b. base_site r = Inr b"
        "\<lambda>site b. \<exists>r. in_order evs site r \<and> base_site r = Inr b" inputs full base]
      assms(1) b by blast
  then show ?thesis
    by (rule list_all2_mono)
       (auto simp: in_order_def base_site_links intro: ordered_links_take)
qed

lemma filter_zip_snd:
  "length xs = length ys \<Longrightarrow>
   map snd (filter (\<lambda>(x, y). P y) (zip xs ys)) = filter P ys"
  by (induction xs ys rule: list_induct2) auto

lemma in_order_internal:
  assumes "list_all2 (in_order evs) inputs full"
    and "make_internal full domains = Inr internal"
  shows "list_all2 (\<lambda>(site, r) i. in_order evs site i)
           (filter (\<lambda>(site, r). site_domain_in domains r) (zip inputs full)) internal"
proof -
  let ?zs = "filter (\<lambda>(site, r). site_domain_in domains r) (zip inputs full)"
  from assms(1) have len: "length inputs = length full"
    by (rule list_all2_lengthD)
  from assms(2) obtain kept where k: "keep_internal domains full = Inr kept"
    and e: "each (internal_site domains) kept = Inr internal"
    by (auto simp: make_internal_def and_then_Inr)
  from each_Inr_all2 [OF e] keep_internal_filter [OF k] filter_zip_snd [OF len]
  have "list_all2 (\<lambda>r i. internal_site domains r = Inr i) (map snd ?zs) internal"
    by simp
  then have i: "list_all2 (\<lambda>z i. internal_site domains (snd z) = Inr i) ?zs internal"
    by (simp add: list_all2_map1)
  have z: "in_order evs (fst z) (snd z)" if "z \<in> set ?zs" for z
  proof -
    from that have "z \<in> set (zip inputs full)" by simp
    with assms(1) show ?thesis
      by (auto simp: list_all2_iff)
  qed
  show ?thesis
  proof (rule list.rel_mono_strong [OF i])
    fix z i
    assume m: "z \<in> set ?zs" and r: "internal_site domains (snd z) = Inr i"
    from z [OF m] obtain d where d: "domain_field ''domain'' (fst z) = Inr d"
      and o: "ordered_links d evs (links_of (snd z))"
      by (auto simp: in_order_def)
    from ordered_links_filter [OF o] internal_site_links [OF r]
    have "ordered_links d evs (links_of i)" by simp
    with d have "in_order evs (fst z) i" by (auto simp: in_order_def)
    then show "(case z of (site, r) \<Rightarrow> in_order evs site) i"
      by (simp add: case_prod_beta)
  qed
qed

text \<open>
  C6. Whenever \<^verbatim>\<open>make_full\<close> returns, the links mapping of every record of the full view
  is ordered by descending normalized score, and entries of equal score are in the order in
  which the record's domain first observed their target domains during aggregation (the
  insertion order of \<^verbatim>\<open>links[domain]\<close>, which the stable sort keeps); the same holds for
  every record of the base view and of the internal view made from the full view, whose
  links are a prefix and a sublist of the full record's. The domain of a record is the one
  named by the site record it was made for: the site records in their order, then the stub
  records of \<^verbatim>\<open>more_sites\<close>.
\<close>

theorem links_ordered:
  assumes "make_full cfg sites ls extras = Inr full"
  shows "\<exists>st evs site_domains.
           load_links ls = Inr st \<and> each read_link ls = Inr evs \<and>
           each (domain_field ''domain'') sites = Inr site_domains \<and>
           list_all2 (in_order evs) (sites @ more_sites (from_domains st) site_domains) full \<and>
           (\<forall>base. make_base full = Inr base \<longrightarrow>
              list_all2 (in_order evs) (sites @ more_sites (from_domains st) site_domains) base) \<and>
           (\<forall>internal. make_internal full domains = Inr internal \<longrightarrow>
              list_all2 (\<lambda>(site, r) i. in_order evs site i)
                (filter (\<lambda>(site, r). site_domain_in domains r)
                   (zip (sites @ more_sites (from_domains st) site_domains) full))
                internal)"
proof -
  from assms obtain st evs site_domains where
    a: "load_links ls = Inr st" "each read_link ls = Inr evs"
      "each (domain_field ''domain'') sites = Inr site_domains" and
    l: "list_all2 (in_order evs) (sites @ more_sites (from_domains st) site_domains) full"
    by (rule make_full_in_order)
  from a l in_order_base [OF l] in_order_internal [OF l] show ?thesis by blast
qed

lemma sample_read: "each read_link sample_links = Inr sample_events"
  by (simp add: sample_links_def sample_events_def link_rec_def read_link_def domain_field_def
                mf2_field_def)

lemma sample_load:
  "load_links sample_links =
     Inr \<lparr>links =
            [(''d.com'', [(''a.com'', [(Out, [(''other'', 1)])])]),
             (''a.com'', [(''d.com'', [(In, [(''other'', 1)])]),
                          (''b.com'', [(Out, [(''in-reply-to'', 3)])]),
                          (''c.com'', [(Out, [(''in-reply-to'', 3)])])]),
             (''b.com'', [(''a.com'', [(In, [(''in-reply-to'', 3)])])]),
             (''c.com'', [(''a.com'', [(In, [(''in-reply-to'', 3)])])])],
           from_domains = [''d.com'', ''a.com''],
           out_counts = [(''d.com'', 1), (''a.com'', 6)],
           in_counts = [(''a.com'', 1), (''b.com'', 3), (''c.com'', 3)]\<rparr>"
  by (simp add: sample_links_def load_links_def empty_state_def link_rec_def read_link_def
                domain_field_def mf2_field_def add_event_def bump_edge_def)

lemma sample_raw:
  "raw_scores [(''a.com'', [(Out, [(''other'', 1)])])] =
     Inr [(''a.com'', [(Out, [(''other'', 1)])], 2)]"
  "raw_scores [(''d.com'', [(In, [(''other'', 1)])]),
               (''b.com'', [(Out, [(''in-reply-to'', 3)])]),
               (''c.com'', [(Out, [(''in-reply-to'', 3)])])] =
     Inr [(''d.com'', [(In, [(''other'', 1)])], 1),
          (''b.com'', [(Out, [(''in-reply-to'', 3)])], 30),
          (''c.com'', [(Out, [(''in-reply-to'', 3)])], 30)]"
  "raw_scores [(''a.com'', [(In, [(''in-reply-to'', 3)])])] =
     Inr [(''a.com'', [(In, [(''in-reply-to'', 3)])], 15)]"
  by code_simp+

lemma sample_scored:
  "score_links
     [(''d.com'', [(''a.com'', [(Out, [(''other'', 1)])])]),
      (''a.com'', [(''d.com'', [(In, [(''other'', 1)])]),
                   (''b.com'', [(Out, [(''in-reply-to'', 3)])]),
                   (''c.com'', [(Out, [(''in-reply-to'', 3)])])]),
      (''b.com'', [(''a.com'', [(In, [(''in-reply-to'', 3)])])]),
      (''c.com'', [(''a.com'', [(In, [(''in-reply-to'', 3)])])])] =
   Inr [(''d.com'', [(''a.com'', \<lparr>st_buckets = [(Out, [(''other'', 1)])],
                                   st_score = normalize (dec_ln 2) 2\<rparr>)]),
        (''a.com'', [(''d.com'', \<lparr>st_buckets = [(In, [(''other'', 1)])], st_score = VInt 0\<rparr>),
                     (''b.com'', \<lparr>st_buckets = [(Out, [(''in-reply-to'', 3)])],
                                   st_score = normalize (dec_ln 30) 30\<rparr>),
                     (''c.com'', \<lparr>st_buckets = [(Out, [(''in-reply-to'', 3)])],
                                   st_score = normalize (dec_ln 30) 30\<rparr>)]),
        (''b.com'', [(''a.com'', \<lparr>st_buckets = [(In, [(''in-reply-to'', 3)])],
                                   st_score = normalize (dec_ln 15) 15\<rparr>)]),
        (''c.com'', [(''a.com'', \<lparr>st_buckets = [(In, [(''in-reply-to'', 3)])],
                                   st_score = normalize (dec_ln 15) 15\<rparr>)])]"
  by (simp add: score_domain_def sample_raw normalize_low del: raw_scores.simps)


lemma sample_max_scores:
  "num_val (normalize (dec_ln 30) 30) = 1" "num_val (normalize (dec_ln 2) 2) = 1"
  by (simp_all add: normalize_max)

lemma make_full_ordered:
  "make_full sample_cfg [[(''domain'', VStr ''a.com'')]] sample_links [] = Inr [sample_a, sample_d]"
  unfolding make_full_def sample_load and_then_def
  by (simp add: sample_scored sample_max_scores sample_a_def sample_d_def stats_val_def
                make_site_def and_then_def collect_extra_def domain_field_def more_sites_def
                merged_def coerce_num_pages_def infer_tags_def setdefault_def tags_append_def
                tag_step_def endpoint_tag_def infer_servers_def generators_def server_tags_def
                crawl_times_def use_fetch_def hcard_value_def attach_def sorted_links_def
                count_of_def dpop_def sample_cfg_def
           del: score_links.simps)


theorem links_ordered_witness:
  "first_seen ''a.com'' sample_events = [''d.com'', ''b.com'', ''c.com''] \<and>
   map fst (links_of sample_a) = [''b.com'', ''c.com'', ''d.com''] \<and>
   in_order sample_events [(''domain'', VStr ''a.com'')] sample_a \<and>
   in_order sample_events [(''domain'', VStr ''d.com'')] sample_d \<and>
   make_base [sample_a, sample_d] = Inr [sample_a, sample_d]"
proof -
  from links_ordered [OF make_full_ordered, of "{}"] obtain st evs site_domains where
    st: "load_links sample_links = Inr st" and
    evs: "each read_link sample_links = Inr evs" and
    sd: "each (domain_field ''domain'') [[(''domain'', VStr ''a.com'')]] = Inr site_domains" and
    l: "list_all2 (in_order evs)
          ([[(''domain'', VStr ''a.com'')]] @ more_sites (from_domains st) site_domains)
          [sample_a, sample_d]"
    by blast
  from evs have e: "evs = sample_events"
    by (simp add: sample_read)
  from st have f: "from_domains st = [''d.com'', ''a.com'']"
    by (auto simp: sample_load)
  from sd have d: "site_domains = [''a.com'']"
    by (auto simp: domain_field_def)
  from l have o: "in_order sample_events [(''domain'', VStr ''a.com'')] sample_a \<and>
      in_order sample_events [(''domain'', VStr ''d.com'')] sample_d"
    by (simp add: e f d more_sites_def)
  have s: "first_seen ''a.com'' sample_events = [''d.com'', ''b.com'', ''c.com'']"
    by (simp add: first_seen_def sample_events_def observed_def note_key_def)
  have k: "map fst (links_of sample_a) = [''b.com'', ''c.com'', ''d.com'']"
    by (simp add: links_of_def sample_a_def)
  have b: "make_base [sample_a, sample_d] = Inr [sample_a, sample_d]"
    by (simp add: make_base_def base_site_def sample_a_def sample_d_def MAX_BASE_LINKS_def)
  from s k o b show ?thesis by blast
qed

end
